theory Spec2Isabelle
  imports Main "HOL-Library.AList"
begin

section \<open>JavaScript values held by the form\<close>

text \<open>
  The component keeps its answers in \<^verbatim>\<open>formData: Record<string, any>\<close>. The values that
  reach it are strings (text, select, radio and date inputs), \<^verbatim>\<open>undefined\<close> (a file input
  with no file chosen), a \<^verbatim>\<open>File\<close> handle, and what \<^verbatim>\<open>JSON.parse\<close> and
  \<^verbatim>\<open>initialData\<close> supply: \<^verbatim>\<open>null\<close>, booleans, arrays and objects.

  The value type is the part of these on which every operation of the component returns.
  Of the objects an answer can be, it has the plain object without own properties
  (\<open>EmptyObj\<close>: \<^verbatim>\<open>{}\<close>, which is also what a \<^verbatim>\<open>File\<close> is read back as; the component
  cannot tell \<^verbatim>\<open>Object.prototype\<close> from it, whose text is the same and which has no
  enumerable property), the \<^verbatim>\<open>File\<close>, and the built-in functions that every object
  inherits (\<open>Native\<close>, by the function's name). An object with own properties as an answer
  is left out, since \<^verbatim>\<open>String(v)\<close> throws for one whose own \<^verbatim>\<open>toString\<close> is not
  callable; numbers are left out, since their text is floating point. Strings are lists of
  8-bit characters.
\<close>

datatype jsval =
    Undefined
  | Null
  | Bool bool
  | Str string
  | Arr "jsval list"
  | EmptyObj
  | File nat
  | Native string

text \<open>
  The answers themselves are a plain object with own properties: an association list with
  its keys in the order they were added (JavaScript lists keys that are array indices first;
  no property below depends on the order). Its prototype is \<^verbatim>\<open>Object.prototype\<close>, as for
  every object literal, spread and result of \<^verbatim>\<open>JSON.parse\<close>.
\<close>

type_synonym jsrecord = "(string \<times> jsval) list"

text \<open>
  The properties of \<^verbatim>\<open>Object.prototype\<close>. \<^verbatim>\<open>constructor\<close> is the function
  \<^verbatim>\<open>Object\<close>, \<^verbatim>\<open>__proto__\<close> is an accessor that returns the prototype of the object
  read, which is \<^verbatim>\<open>Object.prototype\<close> itself here, and the others are functions named as
  the property.
\<close>

definition inherited :: "string \<Rightarrow> jsval option" where
  "inherited k =
     (if k = ''constructor'' then Some (Native ''Object'')
      else if k = ''__proto__'' then Some EmptyObj
      else if k \<in> set [''hasOwnProperty'', ''isPrototypeOf'', ''propertyIsEnumerable'',
                 ''toLocaleString'', ''toString'', ''valueOf'', ''__defineGetter__'',
                 ''__defineSetter__'', ''__lookupGetter__'', ''__lookupSetter__'']
      then Some (Native k)
      else None)"

text \<open>\<^verbatim>\<open>obj[k]\<close>: the own property if there is one, else the inherited one, else
  \<^verbatim>\<open>undefined\<close>.\<close>

definition get_prop :: "jsrecord \<Rightarrow> string \<Rightarrow> jsval" where
  "get_prop obj k =
     (case map_of obj k of
        Some v \<Rightarrow> v
      | None \<Rightarrow> (case inherited k of Some v \<Rightarrow> v | None \<Rightarrow> Undefined))"

text \<open>
  \<^verbatim>\<open>String(v)\<close>. An array is its elements joined by commas, with \<^verbatim>\<open>null\<close> and
  \<^verbatim>\<open>undefined\<close> elements rendered as the empty string. The text of a built-in function is
  written as V8 and JavaScriptCore print it; engines may differ in the white space between
  the braces, and every engine's text starts with \<^verbatim>\<open>function\<close>.
\<close>

fun js_String :: "jsval \<Rightarrow> string"
  and js_join :: "jsval list \<Rightarrow> string"
  and js_elem :: "jsval \<Rightarrow> string"
where
  "js_String Undefined = ''undefined''"
| "js_String Null = ''null''"
| "js_String (Bool b) = (if b then ''true'' else ''false'')"
| "js_String (Str s) = s"
| "js_String (Arr xs) = js_join xs"
| "js_String EmptyObj = ''[object Object]''"
| "js_String (File h) = ''[object File]''"
| "js_String (Native f) = ''function '' @ f @ ''() { [native code] }''"
| "js_join [] = []"
| "js_join [x] = js_elem x"
| "js_join (x # y # ys) = js_elem x @ '','' @ js_join (y # ys)"
| "js_elem Undefined = []"
| "js_elem Null = []"
| "js_elem (Bool b) = js_String (Bool b)"
| "js_elem (Str s) = js_String (Str s)"
| "js_elem (Arr xs) = js_String (Arr xs)"
| "js_elem EmptyObj = js_String EmptyObj"
| "js_elem (File h) = js_String (File h)"
| "js_elem (Native f) = js_String (Native f)"

text \<open>\<^verbatim>\<open>Array.prototype.includes\<close> on an array of strings.\<close>

primrec js_includes :: "string list \<Rightarrow> string \<Rightarrow> bool" where
  "js_includes [] x = False"
| "js_includes (y # ys) x = (y = x \<or> js_includes ys x)"

text \<open>White space and line terminators, as \<^verbatim>\<open>String.prototype.trim\<close> and
  \<^verbatim>\<open>parseInt\<close> strip them (the ones that fit in 8 bits).\<close>

definition js_space :: "char \<Rightarrow> bool" where
  "js_space c = (c = CHR 0x09 \<or> c = CHR 0x0A \<or> c = CHR 0x0B \<or> c = CHR 0x0C \<or> c = CHR 0x0D
     \<or> c = CHR 0x20 \<or> c = CHR 0xA0)"

definition trim :: "string \<Rightarrow> string" where
  "trim s = rev (dropWhile js_space (rev (dropWhile js_space s)))"

section \<open>JSON text\<close>

text \<open>
  \<^verbatim>\<open>JSON.stringify\<close> and \<^verbatim>\<open>JSON.parse\<close> are the platform's; the component stores
  and reads its draft through them, so they are modelled on the text itself.
  A run that leaves the modelled values ends in \<open>Unmodelled\<close>, and the theory says nothing
  about it: a number in the text, a \<^verbatim>\<open>\\u\<close> escape above 8 bits, an object with members
  inside the document, and answers that are an array, a string or a boolean instead of an
  object.
\<close>

datatype error = SyntaxError | TypeError | Unmodelled

definition hex_digit :: "nat \<Rightarrow> char" where
  "hex_digit n = ''0123456789abcdef'' ! n"

definition quote_char :: "char \<Rightarrow> string" where
  "quote_char c =
     (if c = CHR 0x08 then [CHR 0x5C, CHR ''b'']
      else if c = CHR 0x09 then [CHR 0x5C, CHR ''t'']
      else if c = CHR 0x0A then [CHR 0x5C, CHR ''n'']
      else if c = CHR 0x0C then [CHR 0x5C, CHR ''f'']
      else if c = CHR 0x0D then [CHR 0x5C, CHR ''r'']
      else if c = CHR 0x22 then [CHR 0x5C, CHR 0x22]
      else if c = CHR 0x5C then [CHR 0x5C, CHR 0x5C]
      else if of_char c < (32::nat) then
        [CHR 0x5C, CHR ''u'', CHR ''0'', CHR ''0'',
         hex_digit (of_char c div 16), hex_digit (of_char c mod 16)]
      else [c])"

definition QuoteJSONString :: "string \<Rightarrow> string" where
  "QuoteJSONString s = CHR 0x22 # concat (map quote_char s) @ [CHR 0x22]"

fun commas :: "string list \<Rightarrow> string" where
  "commas [] = []"
| "commas [x] = x"
| "commas (x # y # ys) = x @ '','' @ commas (y # ys)"

text \<open>\<^verbatim>\<open>SerializeJSONProperty\<close>: \<^verbatim>\<open>undefined\<close> and a function have no text; they are
  skipped as a property and written \<^verbatim>\<open>null\<close> as an array element. A \<^verbatim>\<open>File\<close> has no
  enumerable property of its own and is written as the empty object.\<close>

fun SerializeJSONProperty :: "jsval \<Rightarrow> string option"
  and SerializeJSONArray :: "jsval list \<Rightarrow> string list"
where
  "SerializeJSONProperty Undefined = None"
| "SerializeJSONProperty Null = Some ''null''"
| "SerializeJSONProperty (Bool b) = Some (if b then ''true'' else ''false'')"
| "SerializeJSONProperty (Str s) = Some (QuoteJSONString s)"
| "SerializeJSONProperty (Arr xs) = Some (''['' @ commas (SerializeJSONArray xs) @ '']'')"
| "SerializeJSONProperty EmptyObj = Some ''{}''"
| "SerializeJSONProperty (File h) = Some ''{}''"
| "SerializeJSONProperty (Native f) = None"
| "SerializeJSONArray [] = []"
| "SerializeJSONArray (x # xs) =
     (case SerializeJSONProperty x of None \<Rightarrow> ''null'' | Some t \<Rightarrow> t) # SerializeJSONArray xs"

fun SerializeJSONObject :: "jsrecord \<Rightarrow> string list" where
  "SerializeJSONObject [] = []"
| "SerializeJSONObject ((k, v) # kvs) =
     (case SerializeJSONProperty v of
        None \<Rightarrow> SerializeJSONObject kvs
      | Some t \<Rightarrow> (QuoteJSONString k @ '':'' @ t) # SerializeJSONObject kvs)"

text \<open>What is written and read at the top: the answers, or a value.\<close>

datatype document = Record jsrecord | Value jsval

definition JSON_stringify :: "document \<Rightarrow> string option" where
  "JSON_stringify d =
     (case d of
        Record kvs \<Rightarrow> Some (''{'' @ commas (SerializeJSONObject kvs) @ ''}'')
      | Value v \<Rightarrow> SerializeJSONProperty v)"

datatype 'a parsed = Parsed 'a string | Failed error | Exhausted

definition json_ws :: "char \<Rightarrow> bool" where
  "json_ws c = (c = CHR 0x09 \<or> c = CHR 0x0A \<or> c = CHR 0x0D \<or> c = CHR 0x20)"

definition skip_ws :: "string \<Rightarrow> string" where
  "skip_ws s = dropWhile json_ws s"

definition hex_val :: "char \<Rightarrow> nat option" where
  "hex_val c =
     (let n = (of_char c :: nat) in
      if 48 \<le> n \<and> n \<le> 57 then Some (n - 48)
      else if 97 \<le> n \<and> n \<le> 102 then Some (n - 87)
      else if 65 \<le> n \<and> n \<le> 70 then Some (n - 55)
      else None)"

definition unescape :: "char \<Rightarrow> char option" where
  "unescape e =
     (if e = CHR 0x22 then Some (CHR 0x22)
      else if e = CHR 0x5C then Some (CHR 0x5C)
      else if e = CHR ''/'' then Some (CHR ''/'')
      else if e = CHR ''b'' then Some (CHR 0x08)
      else if e = CHR ''f'' then Some (CHR 0x0C)
      else if e = CHR ''n'' then Some (CHR 0x0A)
      else if e = CHR ''r'' then Some (CHR 0x0D)
      else if e = CHR ''t'' then Some (CHR 0x09)
      else None)"

definition push :: "char \<Rightarrow> string parsed \<Rightarrow> string parsed" where
  "push c p = (case p of Parsed s r \<Rightarrow> Parsed (c # s) r | Failed e \<Rightarrow> Failed e | Exhausted \<Rightarrow> Exhausted)"

text \<open>The characters of a string literal, after its opening quote, up to the closing one.\<close>

fun parse_chars :: "string \<Rightarrow> string parsed" where
  "parse_chars [] = Failed SyntaxError"
| "parse_chars (c # cs) =
     (if c = CHR 0x22 then Parsed [] cs
      else if c = CHR 0x5C then
        (case cs of
           [] \<Rightarrow> Failed SyntaxError
         | e # r \<Rightarrow>
             if e = CHR ''u'' then
               (case r of
                  x1 # x2 # x3 # x4 # r' \<Rightarrow>
                    (case (hex_val x1, hex_val x2, hex_val x3, hex_val x4) of
                       (Some h1, Some h2, Some h3, Some h4) \<Rightarrow>
                         (let code = ((h1 * 16 + h2) * 16 + h3) * 16 + h4 in
                          if code < 256 then push (char_of code) (parse_chars r')
                          else Failed Unmodelled)
                     | _ \<Rightarrow> Failed SyntaxError)
                | _ \<Rightarrow> Failed SyntaxError)
             else
               (case unescape e of
                  None \<Rightarrow> Failed SyntaxError
                | Some ch \<Rightarrow> push ch (parse_chars r)))
      else if of_char c < (32::nat) then Failed SyntaxError
      else push c (parse_chars cs))"

text \<open>
  The recursive descent over values carries fuel; \<open>JSON_parse\<close> supplies twice the length
  of the text plus one, which is never used up (lemma \<open>JSON_parse_fuel\<close> below).
  A repeated key keeps its first position and takes the last value.
\<close>

definition js_digit :: "char \<Rightarrow> bool" where
  "js_digit c = (48 \<le> (of_char c :: nat) \<and> (of_char c :: nat) \<le> 57)"

fun parse_value :: "nat \<Rightarrow> string \<Rightarrow> jsval parsed"
  and parse_elements :: "nat \<Rightarrow> jsval list \<Rightarrow> string \<Rightarrow> jsval parsed"
where
  "parse_value 0 s = Exhausted"
| "parse_value (Suc n) s =
     (case skip_ws s of
        [] \<Rightarrow> Failed SyntaxError
      | c # r \<Rightarrow>
          if c = CHR 0x22 then
            (case parse_chars r of
               Parsed t r' \<Rightarrow> Parsed (Str t) r'
             | Failed e \<Rightarrow> Failed e
             | Exhausted \<Rightarrow> Exhausted)
          else if c = CHR ''['' then
            (case skip_ws r of
               [] \<Rightarrow> Failed SyntaxError
             | d # r' \<Rightarrow>
                 if d = CHR '']'' then Parsed (Arr []) r' else parse_elements n [] (d # r'))
          else if c = CHR ''{'' then
            (case skip_ws r of
               [] \<Rightarrow> Failed SyntaxError
             | d # r' \<Rightarrow>
                 if d = CHR ''}'' then Parsed EmptyObj r' else Failed Unmodelled)
          else if take 4 (c # r) = ''true'' then Parsed (Bool True) (drop 4 (c # r))
          else if take 5 (c # r) = ''false'' then Parsed (Bool False) (drop 5 (c # r))
          else if take 4 (c # r) = ''null'' then Parsed Null (drop 4 (c # r))
          else if c = CHR ''-'' \<or> js_digit c then Failed Unmodelled
          else Failed SyntaxError)"
| "parse_elements 0 acc s = Exhausted"
| "parse_elements (Suc n) acc s =
     (case parse_value n s of
        Parsed v r \<Rightarrow>
          (case skip_ws r of
             [] \<Rightarrow> Failed SyntaxError
           | d # r' \<Rightarrow>
               if d = CHR '','' then parse_elements n (acc @ [v]) r'
               else if d = CHR '']'' then Parsed (Arr (acc @ [v])) r'
               else Failed SyntaxError)
      | Failed e \<Rightarrow> Failed e
      | Exhausted \<Rightarrow> Exhausted)"

text \<open>The members of the object at the top, after its opening brace.\<close>

fun parse_members :: "nat \<Rightarrow> jsrecord \<Rightarrow> string \<Rightarrow> jsrecord parsed" where
  "parse_members 0 acc s = Exhausted"
| "parse_members (Suc n) acc s =
     (case skip_ws s of
        [] \<Rightarrow> Failed SyntaxError
      | c # r \<Rightarrow>
          if c \<noteq> CHR 0x22 then Failed SyntaxError
          else
            (case parse_chars r of
               Parsed k r1 \<Rightarrow>
                 (case skip_ws r1 of
                    [] \<Rightarrow> Failed SyntaxError
                  | d # r2 \<Rightarrow>
                      if d \<noteq> CHR '':'' then Failed SyntaxError
                      else
                        (case parse_value n r2 of
                           Parsed v r3 \<Rightarrow>
                             (case skip_ws r3 of
                                [] \<Rightarrow> Failed SyntaxError
                              | e # r4 \<Rightarrow>
                                  if e = CHR '','' then parse_members n (AList.update k v acc) r4
                                  else if e = CHR ''}'' then Parsed (AList.update k v acc) r4
                                  else Failed SyntaxError)
                         | Failed e \<Rightarrow> Failed e
                         | Exhausted \<Rightarrow> Exhausted))
             | Failed e \<Rightarrow> Failed e
             | Exhausted \<Rightarrow> Exhausted))"

definition parse_document :: "nat \<Rightarrow> string \<Rightarrow> document parsed" where
  "parse_document n s =
     (case skip_ws s of
        [] \<Rightarrow> Failed SyntaxError
      | c # r \<Rightarrow>
          if c = CHR ''{'' then
            (case skip_ws r of
               [] \<Rightarrow> Failed SyntaxError
             | d # r' \<Rightarrow>
                 if d = CHR ''}'' then Parsed (Record []) r'
                 else
                   (case parse_members n [] (d # r') of
                      Parsed kvs r'' \<Rightarrow> Parsed (Record kvs) r''
                    | Failed e \<Rightarrow> Failed e
                    | Exhausted \<Rightarrow> Exhausted))
          else
            (case parse_value n s of
               Parsed v r' \<Rightarrow> Parsed (Value v) r'
             | Failed e \<Rightarrow> Failed e
             | Exhausted \<Rightarrow> Exhausted))"

definition JSON_parse :: "string \<Rightarrow> error + document" where
  "JSON_parse s =
     (case parse_document (2 * length s + 1) s of
        Parsed d r \<Rightarrow> if skip_ws r = [] then Inr d else Inl SyntaxError
      | Failed e \<Rightarrow> Inl e
      | Exhausted \<Rightarrow> Inl Unmodelled)"

section \<open>Numbers\<close>

text \<open>
  The step index is a JavaScript number. The component only ever holds an integer in it, or
  \<^verbatim>\<open>NaN\<close> when \<^verbatim>\<open>parseInt\<close> finds no digit; integers are exact here (no rounding to a
  double for texts of more than 15 digits).
\<close>

datatype number = NaN | Num int

definition plus_int :: "number \<Rightarrow> int \<Rightarrow> number" where
  "plus_int x k = (case x of NaN \<Rightarrow> NaN | Num n \<Rightarrow> Num (n + k))"

definition less_int :: "number \<Rightarrow> int \<Rightarrow> bool" where
  "less_int x k = (case x of NaN \<Rightarrow> False | Num n \<Rightarrow> n < k)"

definition greater_int :: "number \<Rightarrow> int \<Rightarrow> bool" where
  "greater_int x k = (case x of NaN \<Rightarrow> False | Num n \<Rightarrow> n > k)"

function nat_digits :: "nat \<Rightarrow> string" where
  "nat_digits n =
     (if n < 10 then [''0123456789'' ! n]
      else nat_digits (n div 10) @ [''0123456789'' ! (n mod 10)])"
  by pat_completeness auto
termination
  by (relation "measure id") auto

definition number_toString :: "number \<Rightarrow> string" where
  "number_toString x =
     (case x of
        NaN \<Rightarrow> ''NaN''
      | Num n \<Rightarrow> if n < 0 then CHR ''-'' # nat_digits (nat (- n)) else nat_digits (nat n))"

definition digit_val :: "char \<Rightarrow> int" where
  "digit_val c = int (of_char c) - 48"

text \<open>\<^verbatim>\<open>parseInt(s, 10)\<close>: leading white space, an optional sign, then the longest run of
  decimal digits; \<^verbatim>\<open>NaN\<close> when that run is empty.\<close>

definition parseInt :: "string \<Rightarrow> number" where
  "parseInt s =
     (let t = dropWhile js_space s;
          neg = (t \<noteq> [] \<and> hd t = CHR ''-'');
          u = (if t \<noteq> [] \<and> (hd t = CHR ''-'' \<or> hd t = CHR ''+'') then tl t else t);
          ds = takeWhile js_digit u
      in if ds = [] then NaN
         else Num ((if neg then - 1 else 1) * foldl (\<lambda>a c. 10 * a + digit_val c) 0 ds))"

section \<open>The form definition\<close>

text \<open>
  The interfaces \<^verbatim>\<open>Question\<close>, \<^verbatim>\<open>Step\<close> and \<^verbatim>\<open>FormConfig\<close> of
  \<^verbatim>\<open>components/MultiStepForm.tsx\<close>, with the fields the component's logic reads; labels,
  icons, options and the other fields that only the markup reads are left out.
  An optional field is an \<open>option\<close>.
\<close>

record Conditional =
  cfield :: string
  cvalue :: "string list"

record Question =
  qid :: string
  required :: "bool option"
  conditional :: "Conditional option"

record Step =
  sid :: string
  questions :: "Question list"

record FormConfig =
  steps :: "Step list"

section \<open>Helpers of the component\<close>

fun normalizeValue :: "jsval \<Rightarrow> jsval" where
  "normalizeValue (Str s) = Str (trim s)"
| "normalizeValue v = v"

fun isEmptyValue :: "jsval \<Rightarrow> bool" where
  "isEmptyValue Undefined = True"
| "isEmptyValue Null = True"
| "isEmptyValue (Str s) = (trim s = [])"
| "isEmptyValue (Arr xs) = (length xs = 0)"
| "isEmptyValue v = False"

definition isVisible :: "Question \<Rightarrow> jsrecord \<Rightarrow> bool" where
  "isVisible q formData =
     (case conditional q of
        None \<Rightarrow> True
      | Some c \<Rightarrow>
          (let fieldVal = get_prop formData (cfield c)
           in js_includes (map (\<lambda>v. js_String (Str v)) (cvalue c)) (js_String fieldVal)))"

section \<open>Validation and the enablement of the buttons\<close>

definition required_message :: string where
  "required_message = ''This field is required.''"

text \<open>The body of \<^verbatim>\<open>validateStep\<close>'s loop, and the loop over the questions of a step;
  \<^verbatim>\<open>newErrors[q.id] = ...\<close> adds the key or overwrites its entry in place.\<close>

definition check_question :: "jsrecord \<Rightarrow> (string \<times> string) list \<Rightarrow> Question \<Rightarrow> (string \<times> string) list" where
  "check_question formData newErrors q =
     (if required q = Some True \<and> isVisible q formData \<and> isEmptyValue (get_prop formData (qid q))
      then AList.update (qid q) required_message newErrors
      else newErrors)"

definition newErrors :: "Question list \<Rightarrow> jsrecord \<Rightarrow> (string \<times> string) list" where
  "newErrors qs formData = foldl (check_question formData) [] qs"

definition visibleQuestions :: "Step \<Rightarrow> jsrecord \<Rightarrow> Question list" where
  "visibleQuestions step formData = filter (\<lambda>q. isVisible q formData) (questions step)"

definition requiredVisibleQuestions :: "Step \<Rightarrow> jsrecord \<Rightarrow> Question list" where
  "requiredVisibleQuestions step formData =
     filter (\<lambda>q. required q = Some True) (visibleQuestions step formData)"

definition answeredRequiredVisible :: "Step \<Rightarrow> jsrecord \<Rightarrow> Question list" where
  "answeredRequiredVisible step formData =
     filter (\<lambda>q. \<not> isEmptyValue (get_prop formData (qid q))) (requiredVisibleQuestions step formData)"

definition isNextEnabled :: "Step \<Rightarrow> jsrecord \<Rightarrow> bool" where
  "isNextEnabled step formData =
     (length (answeredRequiredVisible step formData) = length (requiredVisibleQuestions step formData))"

definition isSaveEnabled :: "Step \<Rightarrow> jsrecord \<Rightarrow> bool" where
  "isSaveEnabled step formData =
     list_ex (\<lambda>q. \<not> isEmptyValue (get_prop formData (qid q))) (visibleQuestions step formData)"

section \<open>The component's state and its handlers\<close>

text \<open>
  The five state variables of \<^verbatim>\<open>MultiStepForm\<close>, together with what its handlers reach
  outside: \<^verbatim>\<open>localStorage\<close> (keys in insertion order) and the trace of
  \<^verbatim>\<open>console.log\<close>, \<^verbatim>\<open>alert\<close> and \<^verbatim>\<open>window.location.href\<close> assignments.
\<close>

datatype effect = ConsoleLog string jsrecord | Alert string | Navigate string

record wizard =
  stepIndex :: number
  formData :: jsrecord
  errors :: "(string \<times> string) list"
  showUnsavedModal :: bool
  pendingStepIndex :: "number option"
  localStorage :: "(string \<times> string) list"
  emitted :: "effect list"

definition STORAGE_KEY :: string where
  "STORAGE_KEY = ''healthAssessmentForm''"

definition STEP_KEY :: string where
  "STEP_KEY = ''healthAssessmentStep''"

definition getItem :: "(string \<times> string) list \<Rightarrow> string \<Rightarrow> string option" where
  "getItem store k = map_of store k"

definition setItem :: "string \<Rightarrow> string \<Rightarrow> (string \<times> string) list \<Rightarrow> (string \<times> string) list" where
  "setItem k v store = AList.update k v store"

definition removeItem :: "string \<Rightarrow> (string \<times> string) list \<Rightarrow> (string \<times> string) list" where
  "removeItem k store = AList.delete k store"

text \<open>\<^verbatim>\<open>formConfig.steps[stepIndex]\<close>: \<^verbatim>\<open>undefined\<close> (\<open>None\<close>) outside the array.\<close>

definition currentStep :: "FormConfig \<Rightarrow> number \<Rightarrow> Step option" where
  "currentStep formConfig i =
     (case i of
        NaN \<Rightarrow> None
      | Num n \<Rightarrow>
          if 0 \<le> n \<and> n < int (length (steps formConfig)) then Some (steps formConfig ! nat n)
          else None)"

text \<open>The two write-through effects, \<^verbatim>\<open>useEffect(..., [formData])\<close> and
  \<^verbatim>\<open>useEffect(..., [stepIndex])\<close>.\<close>

definition persist_formData :: "wizard \<Rightarrow> wizard" where
  "persist_formData w =
     w\<lparr>localStorage :=
         setItem STORAGE_KEY
           (case JSON_stringify (Record (formData w)) of None \<Rightarrow> ''undefined'' | Some t \<Rightarrow> t)
           (localStorage w)\<rparr>"

definition persist_stepIndex :: "wizard \<Rightarrow> wizard" where
  "persist_stepIndex w =
     w\<lparr>localStorage := setItem STEP_KEY (number_toString (stepIndex w)) (localStorage w)\<rparr>"

text \<open>
  \<^verbatim>\<open>setStepIndex\<close> followed by what React does with it. An equal value changes nothing.
  Otherwise the component renders again: its body reads \<^verbatim>\<open>currentStep.questions\<close>, which
  throws a \<^verbatim>\<open>TypeError\<close> when the index names no step (nothing catches it), and after a
  render that succeeds the effect on \<^verbatim>\<open>[stepIndex]\<close> writes the index through.
\<close>

definition setStepIndex :: "FormConfig \<Rightarrow> number \<Rightarrow> wizard \<Rightarrow> error + wizard" where
  "setStepIndex formConfig i w =
     (if i = stepIndex w then Inr w
      else (case currentStep formConfig i of
              None \<Rightarrow> Inl TypeError
            | Some step \<Rightarrow> Inr (persist_stepIndex (w\<lparr>stepIndex := i\<rparr>))))"

definition handleChange :: "string \<Rightarrow> jsval \<Rightarrow> wizard \<Rightarrow> wizard" where
  "handleChange ident v w =
     (let normalized = normalizeValue v
      in persist_formData
           (w\<lparr>formData := AList.update ident normalized (formData w),
              errors := AList.update ident [] (errors w)\<rparr>))"

text \<open>\<^verbatim>\<open>validateStep\<close> returns its boolean together with the state after
  \<^verbatim>\<open>setErrors(newErrors)\<close>.\<close>

definition validateStep :: "FormConfig \<Rightarrow> wizard \<Rightarrow> error + (bool \<times> wizard)" where
  "validateStep formConfig w =
     (case currentStep formConfig (stepIndex w) of
        None \<Rightarrow> Inl TypeError
      | Some step \<Rightarrow>
          (let errs = newErrors (questions step) (formData w)
           in Inr (length errs = 0, w\<lparr>errors := errs\<rparr>)))"

definition nextStep :: "FormConfig \<Rightarrow> wizard \<Rightarrow> error + wizard" where
  "nextStep formConfig w =
     (case validateStep formConfig w of
        Inl e \<Rightarrow> Inl e
      | Inr (valid, w') \<Rightarrow>
          if valid then setStepIndex formConfig (plus_int (stepIndex w') 1) w' else Inr w')"

definition prevStep :: "FormConfig \<Rightarrow> wizard \<Rightarrow> error + wizard" where
  "prevStep formConfig w = setStepIndex formConfig (plus_int (stepIndex w) (- 1)) w"

definition handleSubmit :: "FormConfig \<Rightarrow> wizard \<Rightarrow> error + wizard" where
  "handleSubmit formConfig w =
     (case validateStep formConfig w of
        Inl e \<Rightarrow> Inl e
      | Inr (valid, w') \<Rightarrow>
          if valid then
            Inr (w'\<lparr>emitted := emitted w' @
                       [ConsoleLog ''Final Data:'' (formData w'), Alert ''Form submitted successfully!''],
                    localStorage := removeItem STEP_KEY (removeItem STORAGE_KEY (localStorage w'))\<rparr>)
          else Inr w')"

definition handleSaveExit :: "FormConfig \<Rightarrow> wizard \<Rightarrow> error + wizard" where
  "handleSaveExit formConfig w =
     (case currentStep formConfig (stepIndex w) of
        None \<Rightarrow> Inl TypeError
      | Some step \<Rightarrow>
          (let allVisibleAnswered =
                 list_all (\<lambda>q. \<not> isEmptyValue (get_prop (formData w) (qid q)))
                   (visibleQuestions step (formData w))
           in if \<not> allVisibleAnswered then
                Inr (w\<lparr>showUnsavedModal := True, pendingStepIndex := None\<rparr>)
              else
                Inr (w\<lparr>emitted := emitted w @
                          [ConsoleLog ''Saved Data:'' (formData w), Alert ''Progress saved!'',
                           Navigate ''/exit'']\<rparr>)))"

text \<open>The \<^verbatim>\<open>onClick\<close> built for the menu item of step \<open>index\<close>.\<close>

definition menuClick :: "FormConfig \<Rightarrow> nat \<Rightarrow> wizard \<Rightarrow> error + wizard" where
  "menuClick formConfig index w =
     (case validateStep formConfig w of
        Inl e \<Rightarrow> Inl e
      | Inr (isCurrentStepValid, w') \<Rightarrow>
          if \<not> isCurrentStepValid then
            Inr (w'\<lparr>pendingStepIndex := Some (Num (int index)), showUnsavedModal := True\<rparr>)
          else setStepIndex formConfig (Num (int index)) w')"

text \<open>The buttons of the confirmation dialog, and closing it.\<close>

definition proceedWithoutSaving :: "FormConfig \<Rightarrow> wizard \<Rightarrow> error + wizard" where
  "proceedWithoutSaving formConfig w =
     (let w' = w\<lparr>showUnsavedModal := False\<rparr>
      in case pendingStepIndex w' of
           Some i \<Rightarrow> setStepIndex formConfig i w'
         | None \<Rightarrow> Inr (w'\<lparr>emitted := emitted w' @ [Navigate ''/exit'']\<rparr>))"

definition saveAndProceed :: "FormConfig \<Rightarrow> wizard \<Rightarrow> error + wizard" where
  "saveAndProceed formConfig w =
     (let w' = (persist_formData w)\<lparr>showUnsavedModal := False\<rparr>
      in case pendingStepIndex w' of
           Some i \<Rightarrow> setStepIndex formConfig i w'
         | None \<Rightarrow> Inr (w'\<lparr>emitted := emitted w' @ [Navigate ''/exit'']\<rparr>))"

definition closeModal :: "wizard \<Rightarrow> wizard" where
  "closeModal w = w\<lparr>showUnsavedModal := False\<rparr>"

section \<open>Session start\<close>

text \<open>
  The first render uses \<^verbatim>\<open>initialData ?? {}\<close> and step 0. Then the three effects run in
  order: the first reads both keys and, for each that holds a non-empty string, sets the state
  from it (\<^verbatim>\<open>JSON.parse\<close> may throw; nothing catches it); the other two write the state
  of the first render through. The state set by the first effect is rendered next, and the
  write-through effects run again for what changed.

  \<^verbatim>\<open>setFormData\<close> takes whatever was parsed. With an object the component goes on as
  described. With \<^verbatim>\<open>null\<close> the next render reads a property of the answers for every
  question of the step shown (in \<^verbatim>\<open>isVisible\<close> for a question with a conditional, in the
  enablement of the buttons for a visible one), and reading a property of \<^verbatim>\<open>null\<close>
  throws a \<^verbatim>\<open>TypeError\<close>. Answers that are \<^verbatim>\<open>null\<close> on a step without questions, or
  an array, a string or a boolean, are outside the values modelled.
\<close>

definition initial :: "jsrecord option \<Rightarrow> (string \<times> string) list \<Rightarrow> wizard" where
  "initial initialData store =
     \<lparr>stepIndex = Num 0,
      formData = (case initialData of None \<Rightarrow> [] | Some d \<Rightarrow> d),
      errors = [],
      showUnsavedModal = False,
      pendingStepIndex = None,
      localStorage = store,
      emitted = []\<rparr>"

definition truthy :: "string option \<Rightarrow> bool" where
  "truthy item = (case item of None \<Rightarrow> False | Some s \<Rightarrow> s \<noteq> [])"

definition load_formData :: "(string \<times> string) list \<Rightarrow> error + document option" where
  "load_formData store =
     (let savedData = getItem store STORAGE_KEY
      in if truthy savedData then
           (case JSON_parse (the savedData) of
              Inl e \<Rightarrow> Inl e
            | Inr d \<Rightarrow> Inr (Some d))
         else Inr None)"

definition load_stepIndex :: "(string \<times> string) list \<Rightarrow> number option" where
  "load_stepIndex store =
     (let savedStep = getItem store STEP_KEY
      in if truthy savedStep then Some (parseInt (the savedStep)) else None)"

definition mount :: "FormConfig \<Rightarrow> jsrecord option \<Rightarrow> (string \<times> string) list \<Rightarrow> error + wizard" where
  "mount formConfig initialData store =
     (let w0 = initial initialData store
      in case currentStep formConfig (stepIndex w0) of
           None \<Rightarrow> Inl TypeError
         | Some step0 \<Rightarrow>
             (case load_formData store of
                Inl e \<Rightarrow> Inl e
              | Inr savedData \<Rightarrow>
                  (let savedStep = load_stepIndex store;
                       w1 = persist_stepIndex (persist_formData w0);
                       w2 = (case savedStep of None \<Rightarrow> w1 | Some i \<Rightarrow> w1\<lparr>stepIndex := i\<rparr>)
                   in case currentStep formConfig (stepIndex w2) of
                        None \<Rightarrow> Inl TypeError
                      | Some step \<Rightarrow>
                          (case savedData of
                             None \<Rightarrow>
                               Inr (if stepIndex w2 \<noteq> stepIndex w0 then persist_stepIndex w2 else w2)
                           | Some (Record d) \<Rightarrow>
                               (let w3 = persist_formData (w2\<lparr>formData := d\<rparr>)
                                in Inr (if stepIndex w3 \<noteq> stepIndex w0 then persist_stepIndex w3
                                        else w3))
                           | Some (Value Null) \<Rightarrow>
                               if questions step = [] then Inl Unmodelled else Inl TypeError
                           | Some (Value v) \<Rightarrow> Inl Unmodelled))))"

section \<open>What the rendered page lets the user do\<close>

text \<open>
  The handlers carry no guard of their own; the markup decides which of them can run.
  \<^verbatim>\<open>Back\<close> is rendered for \<^verbatim>\<open>stepIndex > 0\<close>, \<^verbatim>\<open>Next\<close> for
  \<^verbatim>\<open>stepIndex < steps.length - 1\<close> and the submit button otherwise, both disabled unless
  \<^verbatim>\<open>isNextEnabled\<close>; \<^verbatim>\<open>Save & Exit\<close> is disabled unless \<^verbatim>\<open>isSaveEnabled\<close>; there
  is one menu handler for each step of the configuration (\<^verbatim>\<open>App.tsx\<close> attaches it to the
  menu item; the component builds it the same way but gives its items an empty
  \<^verbatim>\<open>onClick\<close>, so counting it as offered covers both); the dialog's buttons exist while
  the dialog is shown; an input exists for each visible question of the current step.
\<close>

datatype event =
    Edit string jsval
  | Next
  | Back
  | Submit
  | SaveExit
  | Menu nat
  | ProceedWithoutSaving
  | SaveAndProceed
  | CloseModal

definition offered :: "FormConfig \<Rightarrow> wizard \<Rightarrow> event \<Rightarrow> bool" where
  "offered formConfig w ev =
     (case currentStep formConfig (stepIndex w) of
        None \<Rightarrow> False
      | Some step \<Rightarrow>
          (case ev of
             Edit ident v \<Rightarrow> ident \<in> qid ` set (visibleQuestions step (formData w))
           | Next \<Rightarrow>
               less_int (stepIndex w) (int (length (steps formConfig)) - 1)
               \<and> isNextEnabled step (formData w)
           | Back \<Rightarrow> greater_int (stepIndex w) 0
           | Submit \<Rightarrow>
               \<not> less_int (stepIndex w) (int (length (steps formConfig)) - 1)
               \<and> isNextEnabled step (formData w)
           | SaveExit \<Rightarrow> isSaveEnabled step (formData w)
           | Menu index \<Rightarrow> index < length (steps formConfig)
           | ProceedWithoutSaving \<Rightarrow> showUnsavedModal w
           | SaveAndProceed \<Rightarrow> showUnsavedModal w
           | CloseModal \<Rightarrow> showUnsavedModal w))"

definition fire :: "FormConfig \<Rightarrow> event \<Rightarrow> wizard \<Rightarrow> error + wizard" where
  "fire formConfig ev w =
     (case ev of
        Edit ident v \<Rightarrow> Inr (handleChange ident v w)
      | Next \<Rightarrow> nextStep formConfig w
      | Back \<Rightarrow> prevStep formConfig w
      | Submit \<Rightarrow> handleSubmit formConfig w
      | SaveExit \<Rightarrow> handleSaveExit formConfig w
      | Menu index \<Rightarrow> menuClick formConfig index w
      | ProceedWithoutSaving \<Rightarrow> proceedWithoutSaving formConfig w
      | SaveAndProceed \<Rightarrow> saveAndProceed formConfig w
      | CloseModal \<Rightarrow> Inr (closeModal w))"

section \<open>The older copy of the component in App.tsx\<close>

text \<open>
  \<^verbatim>\<open>App.tsx\<close> renders the component above and also carries an earlier copy of it, which
  differs in three places the properties below touch: its \<^verbatim>\<open>isVisible\<close> compares the raw
  answer (\<^verbatim>\<open>value.includes(formData[field])\<close>), its \<^verbatim>\<open>validateStep\<close> tests
  \<^verbatim>\<open>!formData[q.id]\<close>, and its \<^verbatim>\<open>isNextEnabled\<close> counts every question of the step.
\<close>

text \<open>\<^verbatim>\<open>Array.prototype.includes\<close> on an array of strings, asked for any value: only a
  string can be found.\<close>

definition includes_value :: "string list \<Rightarrow> jsval \<Rightarrow> bool" where
  "includes_value xs v = (case v of Str s \<Rightarrow> js_includes xs s | _ \<Rightarrow> False)"

definition isVisible_App :: "Question \<Rightarrow> jsrecord \<Rightarrow> bool" where
  "isVisible_App q answers =
     (case conditional q of
        None \<Rightarrow> True
      | Some c \<Rightarrow> includes_value (cvalue c) (get_prop answers (cfield c)))"

fun falsy :: "jsval \<Rightarrow> bool" where
  "falsy Undefined = True"
| "falsy Null = True"
| "falsy (Bool b) = (\<not> b)"
| "falsy (Str s) = (s = [])"
| "falsy v = False"

definition check_question_App :: "jsrecord \<Rightarrow> (string \<times> string) list \<Rightarrow> Question \<Rightarrow> (string \<times> string) list" where
  "check_question_App answers errs q =
     (if required q = Some True \<and> isVisible_App q answers \<and> falsy (get_prop answers (qid q))
      then AList.update (qid q) required_message errs
      else errs)"

definition newErrors_App :: "Question list \<Rightarrow> jsrecord \<Rightarrow> (string \<times> string) list" where
  "newErrors_App qs answers = foldl (check_question_App answers) [] qs"

definition answeredQuestions_App :: "Step \<Rightarrow> jsrecord \<Rightarrow> Question list" where
  "answeredQuestions_App step answers =
     filter (\<lambda>q. let val = get_prop answers (qid q)
                 in val \<noteq> Undefined \<and> val \<noteq> Null \<and> val \<noteq> Str [])
       (questions step)"

definition isNextEnabled_App :: "Step \<Rightarrow> jsrecord \<Rightarrow> bool" where
  "isNextEnabled_App step answers =
     (length (answeredQuestions_App step answers) = length (questions step))"

section \<open>An example form\<close>

text \<open>
  A two-step form used to run the theorems below on concrete inputs: step one asks for
  \<^verbatim>\<open>hours\<close> (required) and for \<^verbatim>\<open>detail\<close> (required, shown only when \<^verbatim>\<open>hours\<close> is
  \<^verbatim>\<open>6+\<close>); step two asks for optional \<^verbatim>\<open>notes\<close>. Three of its states are named: the one
  a session starts in, the one on step 1 after \<^verbatim>\<open>hours\<close> was answered, and the one on
  step 0 with the dialog open after a click on the menu item of step 1.
\<close>

definition hours_q :: Question where
  "hours_q = \<lparr>qid = ''hours'', required = Some True, conditional = None\<rparr>"

definition detail_q :: Question where
  "detail_q = \<lparr>qid = ''detail'', required = Some True,
      conditional = Some \<lparr>cfield = ''hours'', cvalue = [''6+'']\<rparr>\<rparr>"

definition notes_q :: Question where
  "notes_q = \<lparr>qid = ''notes'', required = None, conditional = None\<rparr>"

definition step_one :: Step where
  "step_one = \<lparr>sid = ''one'', questions = [hours_q, detail_q]\<rparr>"

definition step_two :: Step where
  "step_two = \<lparr>sid = ''two'', questions = [notes_q]\<rparr>"

definition demo_form :: FormConfig where
  "demo_form = \<lparr>steps = [step_one, step_two]\<rparr>"

definition at_step :: "int \<Rightarrow> jsrecord \<Rightarrow> wizard" where
  "at_step i answers = (initial (Some answers) [])\<lparr>stepIndex := Num i\<rparr>"

definition fresh_session :: wizard where
  "fresh_session = persist_stepIndex (persist_formData (at_step 0 []))"

definition finished_draft :: wizard where
  "finished_draft = persist_stepIndex (persist_formData (at_step 1 [(''hours'', Str ''0-2'')]))"

definition pending_jump :: wizard where
  "pending_jump = fresh_session\<lparr>errors := [(''hours'', ''This field is required.'')],
       pendingStepIndex := Some (Num 1), showUnsavedModal := True\<rparr>"

section \<open>Runs of the component\<close>

text \<open>A sequence of handler calls, stopping at the first error; and the states a session
  reaches from its start through the events the page offers.\<close>

fun run :: "FormConfig \<Rightarrow> event list \<Rightarrow> wizard \<Rightarrow> error + wizard" where
  "run formConfig [] w = Inr w"
| "run formConfig (ev # evs) w =
     (case fire formConfig ev w of Inl e \<Rightarrow> Inl e | Inr w' \<Rightarrow> run formConfig evs w')"

inductive reachable :: "FormConfig \<Rightarrow> jsrecord option \<Rightarrow> (string \<times> string) list \<Rightarrow> wizard \<Rightarrow> bool"
  for formConfig initialData store
where
  start: "mount formConfig initialData store = Inr w \<Longrightarrow> reachable formConfig initialData store w"
| step: "reachable formConfig initialData store w \<Longrightarrow> offered formConfig w ev \<Longrightarrow>
         fire formConfig ev w = Inr w' \<Longrightarrow> reachable formConfig initialData store w'"

text \<open>An index that names a step: \<open>0 \<le> i < steps.length\<close>.\<close>

definition in_steps :: "FormConfig \<Rightarrow> number \<Rightarrow> bool" where
  "in_steps formConfig x =
     (case x of NaN \<Rightarrow> False | Num n \<Rightarrow> 0 \<le> n \<and> n < int (length (steps formConfig)))"

section \<open>What a value is after it was written and read back\<close>

text \<open>
  The value \<^verbatim>\<open>JSON.parse(JSON.stringify(v))\<close>, stated on values: a property without text
  (\<^verbatim>\<open>undefined\<close>, a function) is gone, an array element without text is \<^verbatim>\<open>null\<close>, a
  \<^verbatim>\<open>File\<close> is an empty object. That the parser applied to the printed text gives exactly
  this is theorem \<open>JSON_parse_stringify\<close> below.
\<close>

fun reread :: "jsval \<Rightarrow> jsval"
  and reread_elements :: "jsval list \<Rightarrow> jsval list"
where
  "reread (Arr xs) = Arr (reread_elements xs)"
| "reread (File h) = EmptyObj"
| "reread v = v"
| "reread_elements [] = []"
| "reread_elements (x # xs) =
     (if SerializeJSONProperty x = None then Null else reread x) # reread_elements xs"

fun reread_members :: "jsrecord \<Rightarrow> jsrecord \<Rightarrow> jsrecord" where
  "reread_members acc [] = acc"
| "reread_members acc ((k, v) # kvs) =
     (if SerializeJSONProperty v = None then reread_members acc kvs
      else reread_members (AList.update k (reread v) acc) kvs)"

definition reread_document :: "document \<Rightarrow> document" where
  "reread_document d =
     (case d of
        Record kvs \<Rightarrow> Record (reread_members [] kvs)
      | Value v \<Rightarrow> if reread v = EmptyObj then Record [] else Value (reread v))"

text \<open>The answers the round-trip claim is about: a string, a sequence of strings (or of such
  sequences), or \<^verbatim>\<open>undefined\<close> for an entry that is absent.\<close>

fun plain :: "jsval \<Rightarrow> bool" where
  "plain (Str s) = True"
| "plain (Arr xs) = list_all plain xs"
| "plain v = False"

definition supported :: "jsval \<Rightarrow> bool" where
  "supported v = (v = Undefined \<or> plain v)"

section \<open>Unfolding the example\<close>

lemmas demo_defs = demo_form_def step_one_def step_two_def hours_q_def detail_q_def notes_q_def
  at_step_def initial_def currentStep_def

section \<open>Visibility\<close>

lemma js_includes_set: "js_includes xs x \<longleftrightarrow> x \<in> set xs"
  by (induction xs) auto

text \<open>
  Claim C1. A question with no conditional is visible. A question with the conditional
  \<open>c\<close> is visible exactly when the text of the controller's current answer,
  \<^verbatim>\<open>String(formData[field])\<close>, is one of the texts \<^verbatim>\<open>String(v)\<close> of the listed values;
  the comparison is equality of strings, so it distinguishes upper and lower case.
\<close>

theorem isVisible_iff_member:
  "(conditional q = None \<longrightarrow> isVisible q answers) \<and>
   (\<forall>c. conditional q = Some c \<longrightarrow>
      (isVisible q answers \<longleftrightarrow>
         js_String (get_prop answers (cfield c)) \<in> {js_String (Str v) | v. v \<in> set (cvalue c)}))"
  by (auto simp: isVisible_def js_includes_set)

text \<open>The example of the specification: the answer \<^verbatim>\<open>yes\<close> shows the question, \<^verbatim>\<open>Yes\<close>
  does not; a boolean answer matches the listed text \<^verbatim>\<open>true\<close>.\<close>

theorem isVisible_iff_member_witness:
  "isVisible \<lparr>qid = ''packs'', required = Some True,
      conditional = Some \<lparr>cfield = ''smoker'', cvalue = [''yes'']\<rparr>\<rparr> [(''smoker'', Str ''yes'')]
   \<and> \<not> isVisible \<lparr>qid = ''packs'', required = Some True,
      conditional = Some \<lparr>cfield = ''smoker'', cvalue = [''yes'']\<rparr>\<rparr> [(''smoker'', Str ''Yes'')]
   \<and> isVisible \<lparr>qid = ''packs'', required = Some True,
      conditional = Some \<lparr>cfield = ''smoker'', cvalue = [''true'']\<rparr>\<rparr> [(''smoker'', Bool True)]
   \<and> isVisible \<lparr>qid = ''name'', required = None, conditional = None\<rparr> []"
  using isVisible_iff_member [of "\<lparr>qid = ''packs'', required = Some True,
      conditional = Some \<lparr>cfield = ''smoker'', cvalue = [''yes'']\<rparr>\<rparr>" "[(''smoker'', Str ''yes'')]"]
    isVisible_iff_member [of "\<lparr>qid = ''packs'', required = Some True,
      conditional = Some \<lparr>cfield = ''smoker'', cvalue = [''yes'']\<rparr>\<rparr>" "[(''smoker'', Str ''Yes'')]"]
    isVisible_iff_member [of "\<lparr>qid = ''packs'', required = Some True,
      conditional = Some \<lparr>cfield = ''smoker'', cvalue = [''true'']\<rparr>\<rparr>" "[(''smoker'', Bool True)]"]
    isVisible_iff_member [of "\<lparr>qid = ''name'', required = None, conditional = None\<rparr>" "[]"]
  by (simp add: get_prop_def)

text \<open>
  Claim C10, as amended. The controller has no entry in the answers. When its id is not the
  name of a property that every object inherits, the lookup gives \<^verbatim>\<open>undefined\<close> and the
  question is visible exactly when the listed values contain the text \<^verbatim>\<open>undefined\<close>; a
  list of ordinary option texts therefore hides the question while its controller is
  unanswered. When its id is such a name (\<^verbatim>\<open>constructor\<close>, \<^verbatim>\<open>toString\<close>, ...), the
  lookup gives the inherited value, and the question is visible exactly when the listed
  values contain the text of that value.
\<close>

theorem isVisible_unanswered_controller:
  "conditional q = Some c \<Longrightarrow> map_of answers (cfield c) = None \<Longrightarrow>
     (inherited (cfield c) = None \<longrightarrow>
        (isVisible q answers \<longleftrightarrow> ''undefined'' \<in> set (cvalue c))) \<and>
     (\<forall>v. inherited (cfield c) = Some v \<longrightarrow>
        (isVisible q answers \<longleftrightarrow> js_String v \<in> set (cvalue c)))"
  by (auto simp: isVisible_def js_includes_set get_prop_def)

text \<open>An unanswered \<^verbatim>\<open>hours\<close> hides the question unless \<^verbatim>\<open>undefined\<close> is listed; an
  unanswered \<^verbatim>\<open>toString\<close> hides it although \<^verbatim>\<open>undefined\<close> is listed.\<close>

theorem isVisible_unanswered_controller_witness:
  "\<not> isVisible \<lparr>qid = ''detail'', required = None,
        conditional = Some \<lparr>cfield = ''hours'', cvalue = [''6+'']\<rparr>\<rparr> [(''other'', Str ''x'')]
   \<and> isVisible \<lparr>qid = ''detail'', required = None,
        conditional = Some \<lparr>cfield = ''hours'', cvalue = [''6+'', ''undefined'']\<rparr>\<rparr> [(''other'', Str ''x'')]
   \<and> \<not> isVisible \<lparr>qid = ''detail'', required = None,
        conditional = Some \<lparr>cfield = ''toString'', cvalue = [''6+'', ''undefined'']\<rparr>\<rparr> [(''other'', Str ''x'')]"
  using isVisible_unanswered_controller [of "\<lparr>qid = ''detail'', required = None,
        conditional = Some \<lparr>cfield = ''hours'', cvalue = [''6+'']\<rparr>\<rparr>" "\<lparr>cfield = ''hours'', cvalue = [''6+'']\<rparr>" "[(''other'', Str ''x'')]"]
   isVisible_unanswered_controller [of "\<lparr>qid = ''detail'', required = None,
        conditional = Some \<lparr>cfield = ''hours'', cvalue = [''6+'', ''undefined'']\<rparr>\<rparr>" "\<lparr>cfield = ''hours'', cvalue = [''6+'', ''undefined'']\<rparr>" "[(''other'', Str ''x'')]"]
   isVisible_unanswered_controller [of "\<lparr>qid = ''detail'', required = None,
        conditional = Some \<lparr>cfield = ''toString'', cvalue = [''6+'', ''undefined'']\<rparr>\<rparr>" "\<lparr>cfield = ''toString'', cvalue = [''6+'', ''undefined'']\<rparr>" "[(''other'', Str ''x'')]"]
  by (simp add: inherited_def)

text \<open>The first reading of claim C10 fails at a controller named \<^verbatim>\<open>constructor\<close>: the
  answers hold no entry for it, yet \<^verbatim>\<open>formData["constructor"]\<close> is the function
  \<^verbatim>\<open>Object\<close>. A list that contains \<^verbatim>\<open>undefined\<close> does not show the question, and a
  list without it that contains the function's text does.\<close>

theorem isVisible_inherited_controller:
  "map_of ([] :: jsrecord) ''constructor'' = None
   \<and> \<not> isVisible \<lparr>qid = ''detail'', required = None,
        conditional = Some \<lparr>cfield = ''constructor'', cvalue = [''undefined'']\<rparr>\<rparr> []
   \<and> isVisible \<lparr>qid = ''detail'', required = None,
        conditional = Some \<lparr>cfield = ''constructor'',
          cvalue = [''function Object() { [native code] }'']\<rparr>\<rparr> []"
  by (simp add: isVisible_def get_prop_def inherited_def)

section \<open>Validation\<close>

lemma length_filter_all: "length (filter P xs) = length xs \<longleftrightarrow> (\<forall>x\<in>set xs. P x)"
proof (induction xs)
  case Nil
  then show ?case by simp
next
  case (Cons x xs)
  have "length (filter P xs) \<le> length xs" by (rule length_filter_le)
  then have "length (filter P xs) \<noteq> Suc (length xs)" by arith
  with Cons show ?case by auto
qed

lemma check_question_keys:
  "fst ` set (check_question fd acc q) =
     fst ` set acc \<union> (if required q = Some True \<and> isVisible q fd \<and> isEmptyValue (get_prop fd (qid q))
                         then {qid q} else {})"
  by (auto simp: check_question_def dom_update)

lemma foldl_check_keys:
  "fst ` set (foldl (check_question fd) acc qs) =
     fst ` set acc \<union>
     qid ` {q \<in> set qs. required q = Some True \<and> isVisible q fd \<and> isEmptyValue (get_prop fd (qid q))}"
proof (induction qs arbitrary: acc)
  case Nil
  then show ?case by simp
next
  case (Cons q qs)
  show ?case
    unfolding foldl_Cons Cons.IH check_question_keys by auto
qed

lemma newErrors_keys:
  "fst ` set (newErrors qs fd) =
     qid ` {q \<in> set qs. required q = Some True \<and> isVisible q fd \<and> isEmptyValue (get_prop fd (qid q))}"
  by (simp add: newErrors_def foldl_check_keys)








lemma isNextEnabled_all:
  "isNextEnabled step answers \<longleftrightarrow>
     (\<forall>q\<in>set (requiredVisibleQuestions step answers). \<not> isEmptyValue (get_prop answers (qid q)))"
  unfolding isNextEnabled_def answeredRequiredVisible_def by (rule length_filter_all)

lemma set_requiredVisibleQuestions:
  "set (requiredVisibleQuestions step answers) =
     {q \<in> set (questions step). required q = Some True \<and> isVisible q answers}"
  by (auto simp: requiredVisibleQuestions_def visibleQuestions_def)

lemma newErrors_empty_iff:
  "newErrors qs fd = [] \<longleftrightarrow>
     (\<forall>q\<in>set qs. required q = Some True \<and> isVisible q fd \<longrightarrow> \<not> isEmptyValue (get_prop fd (qid q)))"
proof -
  have "newErrors qs fd = [] \<longleftrightarrow> fst ` set (newErrors qs fd) = {}" by simp
  also have "\<dots> \<longleftrightarrow> (\<forall>q\<in>set qs. required q = Some True \<and> isVisible q fd \<longrightarrow> \<not> isEmptyValue (get_prop fd (qid q)))"
    unfolding newErrors_keys by auto
  finally show ?thesis .
qed

lemma validateStep_run:
  "currentStep formConfig (stepIndex w) = Some step \<Longrightarrow>
   validateStep formConfig w =
     Inr (newErrors (questions step) (formData w) = [],
          w\<lparr>errors := newErrors (questions step) (formData w)\<rparr>)"
  by (simp add: validateStep_def Let_def)



text \<open>
  Claim C3. \<^verbatim>\<open>isNextEnabled\<close> holds exactly when every required and visible question of
  the step has a non-empty answer; dropping the optional and the hidden questions from the
  step leaves it unchanged.
\<close>

theorem isNextEnabled_iff:
  "(isNextEnabled step answers \<longleftrightarrow>
      (\<forall>q\<in>set (questions step). required q = Some True \<and> isVisible q answers \<longrightarrow>
           \<not> isEmptyValue (get_prop answers (qid q))))
   \<and> isNextEnabled step answers =
       isNextEnabled (step\<lparr>questions :=
          filter (\<lambda>q. required q = Some True \<and> isVisible q answers) (questions step)\<rparr>) answers"
proof -
  let ?kept = "step\<lparr>questions :=
          filter (\<lambda>q. required q = Some True \<and> isVisible q answers) (questions step)\<rparr>"
  have same: "set (requiredVisibleQuestions ?kept answers) = set (requiredVisibleQuestions step answers)"
    unfolding set_requiredVisibleQuestions by auto
  have first: "isNextEnabled step answers \<longleftrightarrow>
      (\<forall>q\<in>set (questions step). required q = Some True \<and> isVisible q answers \<longrightarrow>
           \<not> isEmptyValue (get_prop answers (qid q)))"
    unfolding isNextEnabled_all set_requiredVisibleQuestions by auto
  have second: "isNextEnabled step answers = isNextEnabled ?kept answers"
    unfolding isNextEnabled_all same ..
  from first second show ?thesis by (rule conjI)
qed

text \<open>The scenario of the specification, with \<^verbatim>\<open>detail\<close> required.\<close>

theorem isNextEnabled_iff_witness:
  "\<not> isNextEnabled step_one [] \<and> isNextEnabled step_one [(''hours'', Str ''0-2'')]
   \<and> \<not> isNextEnabled step_one [(''hours'', Str ''6+'')]
   \<and> isNextEnabled step_one [(''hours'', Str ''6+''), (''detail'', Str ''night shifts'')]"
  using isNextEnabled_iff [of step_one "[]"]
    isNextEnabled_iff [of step_one "[(''hours'', Str ''0-2'')]"]
    isNextEnabled_iff [of step_one "[(''hours'', Str ''6+'')]"]
    isNextEnabled_iff [of step_one "[(''hours'', Str ''6+''), (''detail'', Str ''night shifts'')]"]
  by (simp add: demo_defs isVisible_def get_prop_def inherited_def trim_def js_space_def)

section \<open>Moving forward and submitting\<close>






section \<open>The range of the step index\<close>

lemma currentStep_in_steps: "currentStep formConfig x \<noteq> None \<longleftrightarrow> in_steps formConfig x"
  by (simp add: currentStep_def in_steps_def split: number.splits)

lemma setStepIndex_in_steps:
  assumes "in_steps formConfig i"
  shows "\<exists>w'. setStepIndex formConfig i w = Inr w' \<and> in_steps formConfig (stepIndex w')
            \<and> pendingStepIndex w' = pendingStepIndex w"
proof (cases "i = stepIndex w")
  case True
  then show ?thesis using assms by (simp add: setStepIndex_def)
next
  case False
  from assms obtain step where "currentStep formConfig i = Some step"
    using currentStep_in_steps [of formConfig i] by auto
  with False show ?thesis using assms
    by (simp add: setStepIndex_def persist_stepIndex_def)
qed

lemma isNextEnabled_newErrors:
  "isNextEnabled step fd \<longleftrightarrow> newErrors (questions step) fd = []"
  unfolding newErrors_empty_iff isNextEnabled_all set_requiredVisibleQuestions by auto

lemma fire_keeps_in_steps:
  assumes i: "in_steps formConfig (stepIndex w)"
    and p: "\<forall>p. pendingStepIndex w = Some p \<longrightarrow> in_steps formConfig p"
    and o: "offered formConfig w ev"
  shows "\<exists>w'. fire formConfig ev w = Inr w' \<and> in_steps formConfig (stepIndex w')
            \<and> (\<forall>p. pendingStepIndex w' = Some p \<longrightarrow> in_steps formConfig p)"
proof -
  from i obtain step where cs: "currentStep formConfig (stepIndex w) = Some step"
    using currentStep_in_steps [of formConfig "stepIndex w"] by auto
  from i obtain n where n: "stepIndex w = Num n" "0 \<le> n" "n < int (length (steps formConfig))"
    by (auto simp: in_steps_def split: number.splits)
  note vs = validateStep_run [OF cs]
  let ?errs = "newErrors (questions step) (formData w)"
  let ?v = "w\<lparr>errors := ?errs\<rparr>"
  show ?thesis
  proof (cases ev)
    case (Edit ident v)
    then show ?thesis using i p
      by (simp add: fire_def handleChange_def persist_formData_def Let_def)
  next
    case Next
    with o cs have lt: "less_int (stepIndex w) (int (length (steps formConfig)) - 1)"
      and en: "isNextEnabled step (formData w)"
      by (simp_all add: offered_def)
    from en have e: "?errs = []" by (simp add: isNextEnabled_newErrors)
    from lt n have "in_steps formConfig (plus_int (stepIndex ?v) 1)"
      by (simp add: less_int_def plus_int_def in_steps_def)
    from setStepIndex_in_steps [OF this, of ?v] p show ?thesis
      using Next by (auto simp add: fire_def nextStep_def vs e)
  next
    case Back
    with o cs have "greater_int (stepIndex w) 0"
      by (simp add: offered_def)
    with n have "in_steps formConfig (plus_int (stepIndex w) (- 1))"
      by (simp add: greater_int_def plus_int_def in_steps_def)
    from setStepIndex_in_steps [OF this, of w] p show ?thesis
      using Back by (auto simp add: fire_def prevStep_def)
  next
    case Submit
    then show ?thesis using i p
      by (simp add: fire_def handleSubmit_def vs)
  next
    case SaveExit
    then show ?thesis using i p
      by (simp add: fire_def handleSaveExit_def cs Let_def)
  next
    case (Menu index)
    with o cs have "index < length (steps formConfig)"
      by (simp add: offered_def)
    then have t: "in_steps formConfig (Num (int index))"
      by (simp add: in_steps_def)
    show ?thesis
    proof (cases "?errs = []")
      case True
      from setStepIndex_in_steps [OF t, of ?v] p show ?thesis
        using Menu True by (auto simp add: fire_def menuClick_def vs)
    next
      case False
      then show ?thesis using Menu i t
        by (simp add: fire_def menuClick_def vs)
    qed
  next
    case ProceedWithoutSaving
    show ?thesis
    proof (cases "pendingStepIndex w")
      case None
      then show ?thesis using ProceedWithoutSaving i
        by (simp add: fire_def proceedWithoutSaving_def Let_def)
    next
      case (Some t)
      with p have "in_steps formConfig t" by simp
      from setStepIndex_in_steps [OF this, of "w\<lparr>showUnsavedModal := False\<rparr>"] p show ?thesis
        using ProceedWithoutSaving Some by (auto simp add: fire_def proceedWithoutSaving_def Let_def)
    qed
  next
    case SaveAndProceed
    show ?thesis
    proof (cases "pendingStepIndex w")
      case None
      then show ?thesis using SaveAndProceed i
        by (simp add: fire_def saveAndProceed_def persist_formData_def Let_def)
    next
      case (Some t)
      with p have "in_steps formConfig t" by simp
      from setStepIndex_in_steps [OF this, of "(persist_formData w)\<lparr>showUnsavedModal := False\<rparr>"] p
      show ?thesis
        using SaveAndProceed Some
        by (auto simp add: fire_def saveAndProceed_def persist_formData_def Let_def)
    qed
  next
    case CloseModal
    then show ?thesis using i p
      by (simp add: fire_def closeModal_def)
  qed
qed

lemma mount_in_steps:
  assumes "mount formConfig initialData store = Inr w"
  shows "in_steps formConfig (stepIndex w) \<and> pendingStepIndex w = None"
  using assms
  by (auto simp: mount_def Let_def initial_def persist_formData_def persist_stepIndex_def
      currentStep_in_steps [symmetric]
      split: option.splits sum.splits if_splits document.splits jsval.splits)

lemma reachable_inv:
  "reachable formConfig initialData store w \<Longrightarrow>
     in_steps formConfig (stepIndex w)
     \<and> (\<forall>p. pendingStepIndex w = Some p \<longrightarrow> in_steps formConfig p)"
proof (induction rule: reachable.induct)
  case (start w)
  then show ?case using mount_in_steps by simp
next
  case (step w ev w')
  then show ?case using fire_keeps_in_steps [of formConfig w ev] by auto
qed

text \<open>
  Claim C4, as the code has it. Every state that a session reaches from its start through
  the events the page offers has a step index that names a step, and every handler the page
  offers there returns a state whose index names a step again.
\<close>

theorem reachable_stepIndex:
  assumes "reachable formConfig initialData store w"
  shows "(\<exists>n. stepIndex w = Num n \<and> 0 \<le> n \<and> n < int (length (steps formConfig)))
     \<and> (\<forall>ev. offered formConfig w ev \<longrightarrow>
            (\<exists>w'. fire formConfig ev w = Inr w' \<and> in_steps formConfig (stepIndex w')))"
proof -
  from reachable_inv [OF assms]
  have i: "in_steps formConfig (stepIndex w)"
    and p: "\<forall>p. pendingStepIndex w = Some p \<longrightarrow> in_steps formConfig p"
    by simp_all
  from i have "\<exists>n. stepIndex w = Num n \<and> 0 \<le> n \<and> n < int (length (steps formConfig))"
    by (cases "stepIndex w") (simp_all add: in_steps_def)
  moreover have "\<forall>ev. offered formConfig w ev \<longrightarrow>
            (\<exists>w'. fire formConfig ev w = Inr w' \<and> in_steps formConfig (stepIndex w'))"
    using fire_keeps_in_steps [OF i p] by blast
  ultimately show ?thesis by (rule conjI)
qed

text \<open>Filling in \<^verbatim>\<open>hours\<close> and pressing Next on the example reaches step 1, where Back is
  offered.\<close>

theorem reachable_stepIndex_witness:
  "reachable demo_form None [] finished_draft
   \<and> (\<exists>n. stepIndex finished_draft = Num n \<and> 0 \<le> n \<and> n < int (length (steps demo_form)))
   \<and> offered demo_form finished_draft Back
   \<and> (\<exists>w'. fire demo_form Back finished_draft = Inr w' \<and> in_steps demo_form (stepIndex w'))"
proof -
  let ?w1 = "handleChange ''hours'' (Str ''0-2'') fresh_session"
  have r0: "reachable demo_form None [] fresh_session"
    by (rule reachable.start) code_simp
  have "offered demo_form fresh_session (Edit ''hours'' (Str ''0-2''))"
    by code_simp
  moreover have "fire demo_form (Edit ''hours'' (Str ''0-2'')) fresh_session = Inr ?w1"
    by (simp add: fire_def)
  ultimately have r1: "reachable demo_form None [] ?w1"
    using r0 by (rule reachable.step [rotated])
  have "offered demo_form ?w1 Next"
    by code_simp
  moreover have "fire demo_form Next ?w1 = Inr finished_draft"
    by code_simp
  ultimately have r2: "reachable demo_form None [] finished_draft"
    using r1 by (rule reachable.step [rotated])
  have b: "offered demo_form finished_draft Back"
    by code_simp
  from reachable_stepIndex [OF r2] b show ?thesis
    using r2 by blast
qed

text \<open>The handlers check no bound themselves, and an index that names no step is an error,
  not a transition that is ignored: \<^verbatim>\<open>prevStep\<close> on step 0, \<^verbatim>\<open>nextStep\<close> on the last
  step, and a stored index beyond the last step each end in the \<^verbatim>\<open>TypeError\<close> of the next
  render.\<close>

theorem unguarded_handlers:
  "mount demo_form None [] = Inr fresh_session
   \<and> plus_int (stepIndex fresh_session) (- 1) = Num (- 1)
   \<and> currentStep demo_form (Num (- 1)) = None
   \<and> prevStep demo_form fresh_session = Inl TypeError
   \<and> nextStep demo_form finished_draft = Inl TypeError
   \<and> mount demo_form None [(STEP_KEY, ''7'')] = Inl TypeError"
  by code_simp

text \<open>The same for every form and state: \<^verbatim>\<open>prevStep\<close> on step 0 always ends in the error,
  and \<^verbatim>\<open>nextStep\<close> on the last step does whenever validation passes.\<close>

lemma prevStep_first_step:
  "stepIndex w = Num 0 \<Longrightarrow> prevStep formConfig w = Inl TypeError"
  by (simp add: prevStep_def setStepIndex_def plus_int_def currentStep_def)

lemma nextStep_last_step:
  assumes "stepIndex w = Num (int (length (steps formConfig)) - 1)"
    and "currentStep formConfig (stepIndex w) = Some step"
    and "newErrors (questions step) (formData w) = []"
  shows "nextStep formConfig w = Inl TypeError"
  using assms
  by (simp add: nextStep_def validateStep_def Let_def setStepIndex_def plus_int_def currentStep_def)

section \<open>The error mapping across transitions\<close>

text \<open>
  Claim C7, as the code has it. A validation pass stores a mapping that does not depend on
  the one before it and has entries only for questions of the current step. \<^verbatim>\<open>nextStep\<close>
  and a menu click that change the step arrive with an empty mapping. \<^verbatim>\<open>prevStep\<close> and
  the two proceed buttons of the dialog leave the mapping as it was, and an edit sets the
  entry of the edited id to the empty message.
\<close>

theorem errors_across_transitions:
  "(\<forall>step. currentStep formConfig (stepIndex w) = Some step \<longrightarrow>
      (\<exists>valid w'. (\<forall>old. validateStep formConfig (w\<lparr>errors := old\<rparr>) = Inr (valid, w'))
         \<and> fst ` set (errors w') \<subseteq> qid ` set (questions step)))
   \<and> (\<forall>w'. nextStep formConfig w = Inr w' \<and> stepIndex w' \<noteq> stepIndex w \<longrightarrow> errors w' = [])
   \<and> (\<forall>index w'. menuClick formConfig index w = Inr w' \<and> stepIndex w' \<noteq> stepIndex w
          \<longrightarrow> errors w' = [])
   \<and> (\<forall>w'. prevStep formConfig w = Inr w' \<longrightarrow> errors w' = errors w)
   \<and> (\<forall>w'. proceedWithoutSaving formConfig w = Inr w' \<longrightarrow> errors w' = errors w)
   \<and> (\<forall>w'. saveAndProceed formConfig w = Inr w' \<longrightarrow> errors w' = errors w)
   \<and> errors (handleChange ident v w) = AList.update ident [] (errors w)"
proof (intro conjI allI impI)
  fix step assume cs: "currentStep formConfig (stepIndex w) = Some step"
  let ?errs = "newErrors (questions step) (formData w)"
  have "\<forall>old. validateStep formConfig (w\<lparr>errors := old\<rparr>) = Inr (?errs = [], w\<lparr>errors := ?errs\<rparr>)"
    using cs by (simp add: validateStep_def Let_def)
  moreover have "fst ` set (errors (w\<lparr>errors := ?errs\<rparr>)) \<subseteq> qid ` set (questions step)"
    by (auto simp: newErrors_keys)
  ultimately show "\<exists>valid w'. (\<forall>old. validateStep formConfig (w\<lparr>errors := old\<rparr>) = Inr (valid, w'))
         \<and> fst ` set (errors w') \<subseteq> qid ` set (questions step)"
    by blast
next
  fix w' assume "nextStep formConfig w = Inr w' \<and> stepIndex w' \<noteq> stepIndex w"
  then show "errors w' = []"
    by (auto simp: nextStep_def validateStep_def setStepIndex_def persist_stepIndex_def Let_def
        split: option.splits if_splits)
next
  fix index w' assume "menuClick formConfig index w = Inr w' \<and> stepIndex w' \<noteq> stepIndex w"
  then show "errors w' = []"
    by (auto simp: menuClick_def validateStep_def setStepIndex_def persist_stepIndex_def Let_def
        split: option.splits if_splits)
next
  fix w' assume "prevStep formConfig w = Inr w'"
  then show "errors w' = errors w"
    by (auto simp: prevStep_def setStepIndex_def persist_stepIndex_def
        split: option.splits if_splits)
next
  fix w' assume "proceedWithoutSaving formConfig w = Inr w'"
  then show "errors w' = errors w"
    by (auto simp: proceedWithoutSaving_def setStepIndex_def persist_stepIndex_def Let_def
        split: option.splits if_splits)
next
  fix w' assume "saveAndProceed formConfig w = Inr w'"
  then show "errors w' = errors w"
    by (auto simp: saveAndProceed_def setStepIndex_def persist_stepIndex_def persist_formData_def
        Let_def split: option.splits if_splits)
next
  show "errors (handleChange ident v w) = AList.update ident [] (errors w)"
    by (simp add: handleChange_def persist_formData_def Let_def)
qed

text \<open>On the example: validation of step one, Next after answering \<^verbatim>\<open>hours\<close>, the menu
  and Back from step 1, and both proceed buttons of the open dialog.\<close>

theorem errors_across_transitions_witness:
  "currentStep demo_form (stepIndex fresh_session) = Some step_one
   \<and> (\<exists>valid w'. validateStep demo_form fresh_session = Inr (valid, w')
          \<and> fst ` set (errors w') \<subseteq> qid ` set (questions step_one))
   \<and> nextStep demo_form (handleChange ''hours'' (Str ''0-2'') fresh_session) = Inr finished_draft
   \<and> errors finished_draft = []
   \<and> menuClick demo_form 0 finished_draft
        = Inr (persist_stepIndex (finished_draft\<lparr>stepIndex := Num 0\<rparr>))
   \<and> prevStep demo_form finished_draft
        = Inr (persist_stepIndex (finished_draft\<lparr>stepIndex := Num 0\<rparr>))
   \<and> errors (persist_stepIndex (finished_draft\<lparr>stepIndex := Num 0\<rparr>)) = errors finished_draft
   \<and> proceedWithoutSaving demo_form pending_jump
        = Inr (persist_stepIndex (pending_jump\<lparr>showUnsavedModal := False, stepIndex := Num 1\<rparr>))
   \<and> saveAndProceed demo_form pending_jump
        = Inr (persist_stepIndex (pending_jump\<lparr>showUnsavedModal := False, stepIndex := Num 1\<rparr>))
   \<and> errors (persist_stepIndex (pending_jump\<lparr>showUnsavedModal := False, stepIndex := Num 1\<rparr>))
        = errors pending_jump"
proof -
  let ?edited = "handleChange ''hours'' (Str ''0-2'') fresh_session"
  let ?left = "persist_stepIndex (finished_draft\<lparr>stepIndex := Num 0\<rparr>)"
  let ?jumped = "persist_stepIndex (pending_jump\<lparr>showUnsavedModal := False, stepIndex := Num 1\<rparr>)"
  have cs: "currentStep demo_form (stepIndex fresh_session) = Some step_one"
    by code_simp
  have nx: "nextStep demo_form ?edited = Inr finished_draft"
    by code_simp
  have moved: "stepIndex finished_draft \<noteq> stepIndex ?edited"
    by code_simp
  have mn: "menuClick demo_form 0 finished_draft = Inr ?left"
    by code_simp
  have pv: "prevStep demo_form finished_draft = Inr ?left"
    by code_simp
  have pw: "proceedWithoutSaving demo_form pending_jump = Inr ?jumped"
    by code_simp
  have sp: "saveAndProceed demo_form pending_jump = Inr ?jumped"
    by code_simp
  note t1 = errors_across_transitions [of demo_form fresh_session]
  note t2 = errors_across_transitions [of demo_form ?edited]
  note t3 = errors_across_transitions [of demo_form finished_draft]
  note t4 = errors_across_transitions [of demo_form pending_jump]
  from t1 cs obtain valid w' where
    v: "\<forall>old. validateStep demo_form (fresh_session\<lparr>errors := old\<rparr>) = Inr (valid, w')"
    and sub: "fst ` set (errors w') \<subseteq> qid ` set (questions step_one)"
    by blast
  from v have "validateStep demo_form (fresh_session\<lparr>errors := errors fresh_session\<rparr>) = Inr (valid, w')"
    by (rule spec)
  then have v': "validateStep demo_form fresh_session = Inr (valid, w')"
    by simp
  from v' sub have e1: "\<exists>valid w'. validateStep demo_form fresh_session = Inr (valid, w')
          \<and> fst ` set (errors w') \<subseteq> qid ` set (questions step_one)"
    by blast
  from t2 nx moved have e2: "errors finished_draft = []"
    by blast
  from t3 pv have e3: "errors ?left = errors finished_draft"
    by blast
  from t4 pw have e4: "errors ?jumped = errors pending_jump"
    by blast
  from cs e1 nx e2 mn pv e3 pw sp e4 show ?thesis
    by (intro conjI)
qed

text \<open>The first reading of claim C7 fails: a click on the menu item of step 1 with
  \<^verbatim>\<open>hours\<close> unanswered opens the dialog, and \<^verbatim>\<open>Proceed without saving\<close> then shows
  step 1 with the error of \<^verbatim>\<open>hours\<close>, a question of step 0, still in the mapping.\<close>

theorem stale_errors_after_proceed:
  "mount demo_form None [] = Inr fresh_session
   \<and> offered demo_form fresh_session (Menu 1)
   \<and> menuClick demo_form 1 fresh_session = Inr pending_jump
   \<and> offered demo_form pending_jump ProceedWithoutSaving
   \<and> proceedWithoutSaving demo_form pending_jump =
       Inr \<lparr>stepIndex = Num 1, formData = [],
            errors = [(''hours'', ''This field is required.'')],
            showUnsavedModal = False, pendingStepIndex = Some (Num 1),
            localStorage = [(STORAGE_KEY, ''{}''), (STEP_KEY, ''1'')], emitted = []\<rparr>
   \<and> currentStep demo_form (Num 1) = Some step_two
   \<and> ''hours'' \<notin> set (map qid (questions step_two))"
  by code_simp

text \<open>Without the menu the same shows in a weaker form: after an edit on step 1, Back
  arrives on step 0 with the (empty) entry of \<^verbatim>\<open>notes\<close> still in the mapping.\<close>

lemma cleared_entry_after_back:
  "run demo_form [Edit ''hours'' (Str ''0-2''), Next, Edit ''notes'' (Str ''x''), Back] fresh_session
     = Inr (persist_stepIndex
         ((handleChange ''notes'' (Str ''x'') finished_draft)\<lparr>stepIndex := Num 0\<rparr>))
   \<and> errors (handleChange ''notes'' (Str ''x'') finished_draft) = [(''notes'', [])]"
  by code_simp

section \<open>Session start\<close>

lemma mount_first_render:
  "steps formConfig \<noteq> [] \<Longrightarrow> currentStep formConfig (Num 0) = Some (steps formConfig ! 0)"
  by (simp add: currentStep_def)

text \<open>
  Claim C8, as the code has it, for a form with at least one step. When neither key holds a
  non-empty string, session start returns the state of the initial data at step 0. Malformed
  data is not caught: an answers text that \<^verbatim>\<open>JSON.parse\<close> rejects makes session start fail
  with that \<^verbatim>\<open>SyntaxError\<close>; a step text that \<^verbatim>\<open>parseInt\<close> does not turn into the index
  of a step makes the render that follows fail with a \<^verbatim>\<open>TypeError\<close>, whatever answers
  were read beside it; and an answers text that parses to \<^verbatim>\<open>null\<close> makes that render fail
  with a \<^verbatim>\<open>TypeError\<close> when the step it shows has a question.
\<close>

theorem mount_outcome:
  assumes "steps formConfig \<noteq> []"
  shows "(\<not> truthy (getItem store STORAGE_KEY) \<and> \<not> truthy (getItem store STEP_KEY) \<longrightarrow>
           (\<exists>w. mount formConfig initialData store = Inr w \<and> stepIndex w = Num 0
              \<and> formData w = (case initialData of None \<Rightarrow> [] | Some d \<Rightarrow> d)
              \<and> errors w = [] \<and> \<not> showUnsavedModal w \<and> pendingStepIndex w = None))
     \<and> (\<forall>saved. getItem store STORAGE_KEY = Some saved \<and> saved \<noteq> []
              \<and> JSON_parse saved = Inl SyntaxError \<longrightarrow>
           mount formConfig initialData store = Inl SyntaxError)
     \<and> (\<forall>saved d. load_formData store = Inr d \<and> getItem store STEP_KEY = Some saved
              \<and> saved \<noteq> [] \<and> \<not> in_steps formConfig (parseInt saved) \<longrightarrow>
           mount formConfig initialData store = Inl TypeError)
     \<and> (\<forall>saved. getItem store STORAGE_KEY = Some saved \<and> saved \<noteq> []
              \<and> JSON_parse saved = Inr (Value Null)
              \<and> (\<forall>step. currentStep formConfig
                            (case load_stepIndex store of None \<Rightarrow> Num 0 | Some i \<Rightarrow> i) = Some step
                          \<longrightarrow> questions step \<noteq> []) \<longrightarrow>
           mount formConfig initialData store = Inl TypeError)"
proof (intro conjI allI impI)
  note r = mount_first_render [OF assms]
  assume "\<not> truthy (getItem store STORAGE_KEY) \<and> \<not> truthy (getItem store STEP_KEY)"
  then show "\<exists>w. mount formConfig initialData store = Inr w \<and> stepIndex w = Num 0
              \<and> formData w = (case initialData of None \<Rightarrow> [] | Some d \<Rightarrow> d)
              \<and> errors w = [] \<and> \<not> showUnsavedModal w \<and> pendingStepIndex w = None"
    by (simp add: mount_def load_formData_def load_stepIndex_def initial_def Let_def r
        persist_formData_def persist_stepIndex_def)
next
  note r = mount_first_render [OF assms]
  fix saved
  assume "getItem store STORAGE_KEY = Some saved \<and> saved \<noteq> []
    \<and> JSON_parse saved = Inl SyntaxError"
  then show "mount formConfig initialData store = Inl SyntaxError"
    by (simp add: mount_def load_formData_def initial_def Let_def r truthy_def)
next
  note r = mount_first_render [OF assms]
  fix saved d
  assume a: "load_formData store = Inr d \<and> getItem store STEP_KEY = Some saved
              \<and> saved \<noteq> [] \<and> \<not> in_steps formConfig (parseInt saved)"
  then have "currentStep formConfig (parseInt saved) = None"
    using currentStep_in_steps [of formConfig "parseInt saved"] by simp
  with a show "mount formConfig initialData store = Inl TypeError"
    by (simp add: mount_def load_stepIndex_def initial_def Let_def r truthy_def
        persist_formData_def persist_stepIndex_def)
next
  note r = mount_first_render [OF assms]
  fix saved
  assume a: "getItem store STORAGE_KEY = Some saved \<and> saved \<noteq> []
              \<and> JSON_parse saved = Inr (Value Null)
              \<and> (\<forall>step. currentStep formConfig
                            (case load_stepIndex store of None \<Rightarrow> Num 0 | Some i \<Rightarrow> i) = Some step
                          \<longrightarrow> questions step \<noteq> [])"
  then have l: "load_formData store = Inr (Some (Value Null))"
    by (simp add: load_formData_def truthy_def)
  show "mount formConfig initialData store = Inl TypeError"
  proof (cases "currentStep formConfig (case load_stepIndex store of None \<Rightarrow> Num 0 | Some i \<Rightarrow> i)")
    case None
    with r show ?thesis
      by (auto simp: mount_def l initial_def Let_def persist_formData_def persist_stepIndex_def
          split: option.splits)
  next
    case (Some step)
    with a have "questions step \<noteq> []"
      by simp
    with Some r show ?thesis
      by (auto simp: mount_def l initial_def Let_def persist_formData_def persist_stepIndex_def
          split: option.splits)
  qed
qed

text \<open>An empty answers text is skipped; an opening brace alone is rejected; index 2 is
  beyond the two steps of the example, also beside a draft that parses; with \<^verbatim>\<open>null\<close> for
  the answers step 0 of the example cannot be rendered.\<close>

theorem mount_outcome_witness:
  "steps demo_form \<noteq> []
   \<and> (\<exists>w. mount demo_form (Some [(''hours'', Str ''3-5'')]) [(STORAGE_KEY, [])] = Inr w
          \<and> stepIndex w = Num 0 \<and> formData w = [(''hours'', Str ''3-5'')])
   \<and> mount demo_form None [(STORAGE_KEY, ''{'')] = Inl SyntaxError
   \<and> mount demo_form None [(STORAGE_KEY, ''{}''), (STEP_KEY, ''2'')] = Inl TypeError
   \<and> mount demo_form None [(STORAGE_KEY, ''null'')] = Inl TypeError"
proof -
  have s: "steps demo_form \<noteq> []"
    by (simp add: demo_defs)
  have a: "\<not> truthy (getItem [(STORAGE_KEY, [])] STORAGE_KEY)
      \<and> \<not> truthy (getItem [(STORAGE_KEY, [])] STEP_KEY)"
    by code_simp
  have b: "getItem [(STORAGE_KEY, ''{'')] STORAGE_KEY = Some ''{'' \<and> ''{'' \<noteq> []
      \<and> JSON_parse ''{'' = Inl SyntaxError"
    by code_simp
  have c: "load_formData [(STORAGE_KEY, ''{}''), (STEP_KEY, ''2'')] = Inr (Some (Record []))
      \<and> getItem [(STORAGE_KEY, ''{}''), (STEP_KEY, ''2'')] STEP_KEY = Some ''2'' \<and> ''2'' \<noteq> []
      \<and> \<not> in_steps demo_form (parseInt ''2'')"
    by code_simp
  have d: "getItem [(STORAGE_KEY, ''null'')] STORAGE_KEY = Some ''null'' \<and> ''null'' \<noteq> []
      \<and> JSON_parse ''null'' = Inr (Value Null)
      \<and> (\<forall>step. currentStep demo_form
               (case load_stepIndex [(STORAGE_KEY, ''null'')] of None \<Rightarrow> Num 0 | Some i \<Rightarrow> i)
               = Some step \<longrightarrow> questions step \<noteq> [])"
  proof -
    have "load_stepIndex [(STORAGE_KEY, ''null'')] = None"
      by code_simp
    moreover have "currentStep demo_form (Num 0) = Some step_one"
      by (simp add: demo_defs)
    moreover have "questions step_one \<noteq> []"
      by (simp add: step_one_def)
    moreover have "getItem [(STORAGE_KEY, ''null'')] STORAGE_KEY = Some ''null'' \<and> ''null'' \<noteq> []
      \<and> JSON_parse ''null'' = Inr (Value Null)"
      by code_simp
    ultimately show ?thesis
      by simp
  qed
  from mount_outcome [OF s, of "[(STORAGE_KEY, [])]" "Some [(''hours'', Str ''3-5'')]"] a
  have "\<exists>w. mount demo_form (Some [(''hours'', Str ''3-5'')]) [(STORAGE_KEY, [])] = Inr w
          \<and> stepIndex w = Num 0 \<and> formData w = [(''hours'', Str ''3-5'')]"
    by auto
  moreover from mount_outcome [OF s, of "[(STORAGE_KEY, ''{'')]" None] b
  have "mount demo_form None [(STORAGE_KEY, ''{'')] = Inl SyntaxError"
    by blast
  moreover from mount_outcome [OF s, of "[(STORAGE_KEY, ''{}''), (STEP_KEY, ''2'')]" None] c
  have "mount demo_form None [(STORAGE_KEY, ''{}''), (STEP_KEY, ''2'')] = Inl TypeError"
    by blast
  moreover from mount_outcome [OF s, of "[(STORAGE_KEY, ''null'')]" None] d
  have "mount demo_form None [(STORAGE_KEY, ''null'')] = Inl TypeError"
    by blast
  ultimately show ?thesis using s by (intro conjI)
qed

text \<open>The first reading of claim C8 fails: stored text that is not JSON, a stored index
  that is not a number, or stored answers that are \<^verbatim>\<open>null\<close> end session start in an
  error.\<close>

theorem mount_unchecked:
  "mount demo_form None [(STORAGE_KEY, ''not json'')] = Inl SyntaxError
   \<and> mount demo_form None [(STEP_KEY, ''abc'')] = Inl TypeError
   \<and> mount demo_form None [(STORAGE_KEY, ''null'')] = Inl TypeError"
  by code_simp

section \<open>The parser always returns\<close>

text \<open>Every successful parse consumes input, so the fuel that \<open>JSON_parse\<close> supplies is never
  used up: \<open>Exhausted\<close> does not occur as its outcome.\<close>

lemma skip_ws_shorter: "skip_ws s = c # r \<Longrightarrow> length r < length s"
proof -
  assume a: "skip_ws s = c # r"
  have "length (skip_ws s) \<le> length s"
    unfolding skip_ws_def by (rule length_dropWhile_le)
  with a show ?thesis by simp
qed

lemma push_Parsed: "push c p = Parsed t r \<longleftrightarrow> (\<exists>t'. p = Parsed t' r \<and> t = c # t')"
  by (cases p) (auto simp: push_def)

lemma parse_chars_bounded:
  "length s \<le> n \<Longrightarrow> parse_chars s = Parsed t r \<Longrightarrow> length r < length s"
proof (induction n arbitrary: s t)
  case 0
  then show ?case by simp
next
  case (Suc n)
  note ih = Suc.IH [rotated]
  show ?case
  proof (cases s)
    case Nil
    with Suc.prems show ?thesis by simp
  next
    case (Cons c cs)
    with Suc.prems show ?thesis
      by (auto simp: push_Parsed Let_def split: if_splits list.splits option.splits dest!: ih)
  qed
qed

lemma parse_chars_shorter: "parse_chars s = Parsed t r \<Longrightarrow> length r < length s"
  by (rule parse_chars_bounded [OF order_refl])

lemma take_literal:
  assumes "take k s = lit" and "length lit = k" and "0 < k"
  shows "length (drop k s) < length s"
proof -
  from assms(1,2) have "min (length s) k = k"
    by (metis length_take)
  then have "k \<le> length s" by simp
  with assms(3) show ?thesis by simp
qed

lemma consumed:
  "parse_value n s = Parsed v r \<Longrightarrow> length r < length s"
  "parse_elements n acc s = Parsed v r \<Longrightarrow> length r < length s"
proof (induction n arbitrary: s acc v r)
  case 0
  { case 1 then show ?case by simp }
  { case 2 then show ?case by simp }
next
  case (Suc n)
  { case 1
    then show ?case
      by (auto split: list.splits if_splits parsed.splits
          dest!: skip_ws_shorter parse_chars_shorter Suc.IH(2)
          dest: take_literal [of 4 _ "''true''"] take_literal [of 5 _ "''false''"]
            take_literal [of 4 _ "''null''"]) }
  { case 2
    then show ?case
      by (auto split: list.splits if_splits parsed.splits
          dest!: skip_ws_shorter Suc.IH(1) Suc.IH(2)) }
qed

lemma members_consumed:
  "parse_members n acc s = Parsed kvs r \<Longrightarrow> length r < length s"
proof (induction n arbitrary: s acc kvs r)
  case 0
  then show ?case by simp
next
  case (Suc n)
  note ih = Suc.IH
  from Suc.prems show ?case
    by (auto split: list.splits if_splits parsed.splits
        dest!: skip_ws_shorter parse_chars_shorter consumed(1) ih)
qed

lemma push_Exhausted: "push c q = Exhausted \<longleftrightarrow> q = Exhausted"
  by (cases q) (simp_all add: push_def)

lemma parse_chars_fuel_free:
  "length s \<le> n \<Longrightarrow> parse_chars s = Exhausted \<Longrightarrow> False"
proof (induction n arbitrary: s)
  case 0
  then show ?case by simp
next
  case (Suc n)
  note ih = Suc.IH [rotated]
  show ?case
  proof (cases s)
    case Nil
    with Suc.prems show ?thesis by simp
  next
    case (Cons c cs)
    with Suc.prems show ?thesis
      by (auto simp: push_Exhausted Let_def split: if_splits list.splits option.splits dest!: ih)
  qed
qed

lemma parse_chars_not_exhausted: "parse_chars s \<noteq> Exhausted"
  using parse_chars_fuel_free [OF order_refl] by blast

lemma enough_fuel:
  "2 * length s < n \<Longrightarrow> parse_value n s \<noteq> Exhausted"
  "2 * length s + 1 < n \<Longrightarrow> parse_elements n acc s \<noteq> Exhausted"
proof (induction n arbitrary: s acc)
  case 0
  { case 1 then show ?case by simp }
  { case 2 then show ?case by simp }
next
  case (Suc n)
  { case 1
    show ?case
    proof (cases "skip_ws s")
      case Nil
      then show ?thesis by simp
    next
      case outer: (Cons c r)
      from skip_ws_shorter [OF outer] have r: "length r < length s" .
      consider (str) "c = CHR 0x22"
        | (arr) "c \<noteq> CHR 0x22" "c = CHR ''[''"
        | (other) "c \<noteq> CHR 0x22" "c \<noteq> CHR ''[''"
        by blast
      then show ?thesis
      proof cases
        case str
        with outer parse_chars_not_exhausted [of r] show ?thesis
          by (simp split: parsed.splits)
      next
        case arr
        show ?thesis
        proof (cases "skip_ws r")
          case Nil
          with outer arr show ?thesis by simp
        next
          case inner: (Cons d r')
          from skip_ws_shorter [OF inner] r "1" have "2 * length (d # r') + 1 < n"
            by simp
          then have "parse_elements n [] (d # r') \<noteq> Exhausted"
            by (rule Suc.IH(2))
          with outer arr inner show ?thesis by simp
        qed
      next
        case other
        with outer show ?thesis by (simp split: list.splits)
      qed
    qed }
  { case 2
    from "2" have "2 * length s < n" by simp
    then have v: "parse_value n s \<noteq> Exhausted"
      by (rule Suc.IH(1))
    show ?case
    proof (cases "parse_value n s")
      case (Parsed v r)
      from consumed(1) [OF Parsed] have r: "length r < length s" .
      show ?thesis
      proof (cases "skip_ws r")
        case Nil
        with Parsed show ?thesis by simp
      next
        case (Cons d r')
        from skip_ws_shorter [OF Cons] r "2" have "2 * length r' + 1 < n"
          by simp
        then have "parse_elements n (acc @ [v]) r' \<noteq> Exhausted"
          by (rule Suc.IH(2))
        with Parsed Cons show ?thesis by simp
      qed
    next
      case (Failed e)
      then show ?thesis by simp
    next
      case Exhausted
      with v show ?thesis by simp
    qed }
qed

lemma members_fuel:
  "2 * length s + 1 < n \<Longrightarrow> parse_members n acc s \<noteq> Exhausted"
proof (induction n arbitrary: s acc)
  case 0
  then show ?case by simp
next
  case (Suc n)
  show ?case
  proof (cases "skip_ws s")
    case Nil
    then show ?thesis by simp
  next
    case outer: (Cons c r)
    from skip_ws_shorter [OF outer] have r: "length r < length s" .
    show ?thesis
    proof (cases "parse_chars r")
      case key: (Parsed k r1)
      from parse_chars_shorter [OF key] have r1: "length r1 < length r" .
      show ?thesis
      proof (cases "skip_ws r1")
        case Nil
        with outer key show ?thesis by simp
      next
        case colon: (Cons d r2)
        from skip_ws_shorter [OF colon] have r2: "length r2 < length r1" .
        from r r1 r2 Suc.prems have "2 * length r2 < n" by simp
        then have v: "parse_value n r2 \<noteq> Exhausted"
          by (rule enough_fuel(1))
        show ?thesis
        proof (cases "parse_value n r2")
          case val: (Parsed v r3)
          from consumed(1) [OF val] have r3: "length r3 < length r2" .
          show ?thesis
          proof (cases "skip_ws r3")
            case Nil
            with outer key colon val show ?thesis by simp
          next
            case sep: (Cons e r4)
            from skip_ws_shorter [OF sep] r r1 r2 r3 Suc.prems have "2 * length r4 + 1 < n"
              by simp
            then have "parse_members n (AList.update k v acc) r4 \<noteq> Exhausted"
              by (rule Suc.IH)
            with outer key colon val sep show ?thesis by simp
          qed
        next
          case (Failed e)
          with outer key colon show ?thesis by simp
        next
          case Exhausted
          with v show ?thesis by simp
        qed
      qed
    next
      case (Failed e)
      with outer show ?thesis by simp
    next
      case Exhausted
      with parse_chars_not_exhausted [of r] show ?thesis by simp
    qed
  qed
qed

lemma document_fuel:
  assumes "2 * length s < n"
  shows "parse_document n s \<noteq> Exhausted"
proof (cases "skip_ws s")
  case Nil
  then show ?thesis by (simp add: parse_document_def)
next
  case outer: (Cons c r)
  from skip_ws_shorter [OF outer] have r: "length r < length s" .
  from assms have v: "parse_value n s \<noteq> Exhausted"
    by (rule enough_fuel(1))
  show ?thesis
  proof (cases "skip_ws r")
    case Nil
    with outer v show ?thesis
      by (simp add: parse_document_def split: parsed.splits)
  next
    case inner: (Cons d r')
    from skip_ws_shorter [OF inner] r assms have "2 * length (d # r') + 1 < n"
      by simp
    then have "parse_members n [] (d # r') \<noteq> Exhausted"
      by (rule members_fuel)
    with outer inner v show ?thesis
      by (simp add: parse_document_def split: parsed.splits)
  qed
qed

lemma JSON_parse_fuel: "parse_document (2 * length s + 1) s \<noteq> Exhausted"
  by (rule document_fuel) simp

text \<open>So \<open>JSON_parse\<close> ends in \<open>Unmodelled\<close> only where the parser itself says so.\<close>

lemma JSON_parse_total:
  "JSON_parse s = Inl Unmodelled \<longleftrightarrow> parse_document (2 * length s + 1) s = Failed Unmodelled"
  using JSON_parse_fuel [of s]
  by (auto simp: JSON_parse_def split: parsed.splits if_splits)

section \<open>Reading back what was written\<close>

text \<open>A quoted string is read back character by character; then, by induction along the
  printer, a printed value followed by any text is parsed to the value \<open>reread\<close> describes,
  leaving that text.\<close>

lemma hex_round: "k < 16 \<Longrightarrow> hex_val (hex_digit k) = Some k"
proof -
  assume "k < 16"
  then consider "k = 0" | "k = 1" | "k = 2" | "k = 3" | "k = 4" | "k = 5" | "k = 6" | "k = 7"
    | "k = 8" | "k = 9" | "k = 10" | "k = 11" | "k = 12" | "k = 13" | "k = 14" | "k = 15"
    by (auto simp: eval_nat_numeral less_Suc_eq)
  then show ?thesis
    by cases (simp_all add: hex_digit_def hex_val_def)
qed

lemma hex_val_zero: "hex_val (CHR ''0'') = Some 0"
  by (simp add: hex_val_def)

lemma parse_chars_quote_char:
  "parse_chars (quote_char c @ tail) = push c (parse_chars tail)"
proof -
  consider (b) "c = CHR 0x08" | (t) "c = CHR 0x09" | (n) "c = CHR 0x0A" | (f) "c = CHR 0x0C"
    | (r) "c = CHR 0x0D" | (q) "c = CHR 0x22" | (s) "c = CHR 0x5C"
    | (u) "c \<noteq> CHR 0x08" "c \<noteq> CHR 0x09" "c \<noteq> CHR 0x0A" "c \<noteq> CHR 0x0C" "c \<noteq> CHR 0x0D"
          "c \<noteq> CHR 0x22" "c \<noteq> CHR 0x5C" "of_char c < (32::nat)"
    | (o) "c \<noteq> CHR 0x08" "c \<noteq> CHR 0x09" "c \<noteq> CHR 0x0A" "c \<noteq> CHR 0x0C" "c \<noteq> CHR 0x0D"
          "c \<noteq> CHR 0x22" "c \<noteq> CHR 0x5C" "\<not> of_char c < (32::nat)"
    by blast
  then show ?thesis
  proof cases
    case u
    let ?n = "of_char c :: nat"
    have d: "?n div 16 < 16" "?n mod 16 < 16" using u(8) by simp_all
    have code: "((0 * 16 + 0) * 16 + ?n div 16) * 16 + ?n mod 16 = ?n" by simp
    have lt: "?n < 256" using u(8) by simp
    have same: "char_of ?n = c" by simp
    show ?thesis
      using u lt
      by (simp add: quote_char_def hex_round [OF d(1)] hex_round [OF d(2)] hex_val_zero same)
  qed (simp_all add: quote_char_def unescape_def)
qed

lemma parse_chars_quoted:
  "parse_chars (concat (map quote_char s) @ CHR 0x22 # rest) = Parsed s rest"
  by (induction s) (simp_all add: parse_chars_quote_char push_def)

lemma commas_Cons: "commas (t # ts) = t @ (if ts = [] then [] else CHR '','' # commas ts)"
  by (cases ts) simp_all

lemma serialize_None:
  "SerializeJSONProperty v = None \<longleftrightarrow> v = Undefined \<or> (\<exists>f. v = Native f)"
  by (cases v) simp_all

lemma serialize_first:
  "SerializeJSONProperty v = Some t \<Longrightarrow> \<exists>c r. t = c # r \<and> \<not> json_ws c \<and> c \<noteq> CHR '']''"
  by (cases v) (auto simp: QuoteJSONString_def json_ws_def)

lemma element_first:
  "\<exists>c r. (case SerializeJSONProperty x of None \<Rightarrow> ''null'' | Some t \<Rightarrow> t) = c # r
      \<and> \<not> json_ws c \<and> c \<noteq> CHR '']''"
proof (cases "SerializeJSONProperty x")
  case None
  then show ?thesis by (simp add: json_ws_def)
next
  case (Some t)
  with serialize_first [OF Some] show ?thesis by simp
qed

lemma array_first:
  "xs \<noteq> [] \<Longrightarrow> \<exists>c r. commas (SerializeJSONArray xs) = c # r \<and> \<not> json_ws c \<and> c \<noteq> CHR '']''"
proof (cases xs)
  case Nil
  assume "xs \<noteq> []"
  with Nil show ?thesis by simp
next
  case (Cons x xs')
  from element_first [of x] obtain c r where
    "(case SerializeJSONProperty x of None \<Rightarrow> ''null'' | Some t \<Rightarrow> t) = c # r"
    "\<not> json_ws c" "c \<noteq> CHR '']''"
    by blast
  with Cons show ?thesis by (simp add: commas_Cons)
qed

lemma object_first:
  "SerializeJSONObject kvs \<noteq> [] \<Longrightarrow> \<exists>r. commas (SerializeJSONObject kvs) = CHR 0x22 # r"
proof (induction kvs)
  case Nil
  then show ?case by simp
next
  case (Cons p kvs)
  obtain k v where p: "p = (k, v)" by (cases p)
  show ?case
  proof (cases "SerializeJSONProperty v")
    case None
    with Cons p show ?thesis by simp
  next
    case (Some t)
    with p show ?thesis by (simp add: commas_Cons QuoteJSONString_def)
  qed
qed

lemma skip_ws_first: "\<not> json_ws c \<Longrightarrow> skip_ws (c # r) = c # r"
  by (simp add: skip_ws_def)

lemma pv_string:
  "parse_value (Suc n) (QuoteJSONString s @ rest) = Parsed (Str s) rest"
  by (simp add: QuoteJSONString_def skip_ws_def json_ws_def parse_chars_quoted)

lemma pv_true: "parse_value (Suc n) (''true'' @ rest) = Parsed (Bool True) rest"
  by (simp add: skip_ws_def json_ws_def)

lemma pv_false: "parse_value (Suc n) (''false'' @ rest) = Parsed (Bool False) rest"
  by (simp add: skip_ws_def json_ws_def)

lemma pv_null: "parse_value (Suc n) (''null'' @ rest) = Parsed Null rest"
  by (simp add: skip_ws_def json_ws_def)

lemma pv_array_empty: "parse_value (Suc n) (''[]'' @ rest) = Parsed (Arr []) rest"
  by (simp add: skip_ws_def json_ws_def)

lemma pv_object_empty: "parse_value (Suc n) (''{}'' @ rest) = Parsed EmptyObj rest"
  by (simp add: skip_ws_def json_ws_def)

lemma pv_array:
  "\<not> json_ws d \<Longrightarrow> d \<noteq> CHR '']'' \<Longrightarrow>
   parse_value (Suc n) (CHR ''['' # d # r) = parse_elements n [] (d # r)"
proof -
  assume d: "\<not> json_ws d" "d \<noteq> CHR '']''"
  have outer: "skip_ws (CHR ''['' # d # r) = CHR ''['' # d # r"
    by (simp add: skip_ws_def json_ws_def)
  have inner: "skip_ws (d # r) = d # r"
    using d(1) by (rule skip_ws_first)
  show ?thesis
    using d(2) by (simp add: outer inner)
qed

lemma pe_more:
  "parse_value n s = Parsed v (CHR '','' # r) \<Longrightarrow>
   parse_elements (Suc n) acc s = parse_elements n (acc @ [v]) r"
  by (simp add: skip_ws_def json_ws_def)

lemma pe_last:
  "parse_value n s = Parsed v (CHR '']'' # r) \<Longrightarrow>
   parse_elements (Suc n) acc s = Parsed (Arr (acc @ [v])) r"
  by (simp add: skip_ws_def json_ws_def)

lemma pm_more:
  "parse_value n s = Parsed v (CHR '','' # r) \<Longrightarrow>
   parse_members (Suc n) acc (QuoteJSONString k @ CHR '':'' # s) = parse_members n (AList.update k v acc) r"
  by (simp add: QuoteJSONString_def skip_ws_def json_ws_def parse_chars_quoted)

lemma pm_last:
  "parse_value n s = Parsed v (CHR ''}'' # r) \<Longrightarrow>
   parse_members (Suc n) acc (QuoteJSONString k @ CHR '':'' # s) = Parsed (AList.update k v acc) r"
  by (simp add: QuoteJSONString_def skip_ws_def json_ws_def parse_chars_quoted)

lemma members_none:
  "SerializeJSONObject kvs = [] \<Longrightarrow> reread_members acc kvs = acc"
proof (induction kvs)
  case Nil
  then show ?case by simp
next
  case (Cons p kvs)
  obtain k v where p: "p = (k, v)" by (cases p)
  from Cons.prems p have "SerializeJSONProperty v = None" "SerializeJSONObject kvs = []"
    by (auto split: option.splits)
  with Cons.IH p show ?case by simp
qed

lemma round_trip_value:
    "\<And>t n rest. SerializeJSONProperty v = Some t \<Longrightarrow> length t \<le> n \<Longrightarrow>
       parse_value n (t @ rest) = Parsed (reread v) rest"
  and round_trip_elements:
    "\<And>n acc rest. xs \<noteq> [] \<Longrightarrow> length (commas (SerializeJSONArray xs)) < n \<Longrightarrow>
       parse_elements n acc (commas (SerializeJSONArray xs) @ CHR '']'' # rest)
         = Parsed (Arr (acc @ reread_elements xs)) rest"
proof (induction v and xs rule: SerializeJSONProperty_SerializeJSONArray.induct)
  case 1
  then show ?case by simp
next
  case 2
  then have t: "t = ''null''" by auto
  with 2 obtain m where n: "n = Suc m" by (cases n) auto
  show ?case unfolding t n pv_null by simp
next
  case (3 b)
  then have t: "t = (if b then ''true'' else ''false'')" by auto
  with 3 obtain m where n: "n = Suc m" by (cases n) (auto split: if_splits)
  show ?case
  proof (cases b)
    case True
    then show ?thesis unfolding t n using pv_true [of m rest] by simp
  next
    case False
    then show ?thesis unfolding t n using pv_false [of m rest] by simp
  qed
next
  case (4 s)
  then have t: "t = QuoteJSONString s" by auto
  with 4 obtain m where n: "n = Suc m" by (cases n) (auto simp: QuoteJSONString_def)
  show ?case unfolding t n pv_string by simp
next
  case (5 xs)
  from 5(2,3) obtain m where n: "n = Suc m" and t: "t = CHR ''['' # commas (SerializeJSONArray xs) @ '']''"
    and len: "length (commas (SerializeJSONArray xs)) < m"
    by (cases n) auto
  show ?case
  proof (cases "xs = []")
    case True
    then have "t = ''[]''" using t by simp
    then show ?thesis unfolding n using True pv_array_empty [of m rest] by simp
  next
    case False
    from array_first [OF False] obtain d r where
      d: "commas (SerializeJSONArray xs) = d # r" "\<not> json_ws d" "d \<noteq> CHR '']''"
      by blast
    have "parse_value n (t @ rest) = parse_elements m [] (commas (SerializeJSONArray xs) @ CHR '']'' # rest)"
      unfolding n t d(1) using pv_array [OF d(2,3)] by simp
    also have "\<dots> = Parsed (Arr ([] @ reread_elements xs)) rest"
      using False len by (rule 5(1))
    finally show ?thesis by simp
  qed
next
  case 6
  then have t: "t = ''{}''" by auto
  with 6 obtain m where n: "n = Suc m" by (cases n) auto
  show ?case unfolding t n pv_object_empty by simp
next
  case (7 h)
  then have t: "t = ''{}''" by auto
  with 7 obtain m where n: "n = Suc m" by (cases n) auto
  show ?case unfolding t n pv_object_empty by simp
next
  case (8 f)
  then show ?case by simp
next
  case 9
  then show ?case by simp
next
  case (10 x xs)
  let ?e = "case SerializeJSONProperty x of None \<Rightarrow> ''null'' | Some t \<Rightarrow> t"
  let ?v = "if SerializeJSONProperty x = None then Null else reread x"
  let ?tail = "if xs = [] then [] else CHR '','' # commas (SerializeJSONArray xs)"
  have shape: "commas (SerializeJSONArray (x # xs)) = ?e @ ?tail"
    by (cases xs) (simp_all add: commas_Cons)
  from element_first [of x] have e1: "1 \<le> length ?e"
    by (auto simp: Suc_le_eq)
  from 10(4) e1 obtain m where n: "n = Suc m" and le: "length ?e \<le> m"
    and lt: "xs \<noteq> [] \<longrightarrow> length (commas (SerializeJSONArray xs)) < m"
    unfolding shape by (cases n) (auto split: if_splits)
  have first: "parse_value m (?e @ rest') = Parsed ?v rest'" for rest'
  proof (cases "SerializeJSONProperty x")
    case None
    from le None obtain m' where "m = Suc m'" by (cases m) auto
    with None show ?thesis using pv_null [of m' rest'] by simp
  next
    case (Some t)
    from le Some have "length t \<le> m" by simp
    from 10(1) [OF Some this, of rest'] Some show ?thesis by simp
  qed
  show ?case
  proof (cases "xs = []")
    case True
    have "parse_elements n acc (commas (SerializeJSONArray (x # xs)) @ CHR '']'' # rest)
        = parse_elements (Suc m) acc (?e @ CHR '']'' # rest)"
      unfolding shape n using True by simp
    also have "\<dots> = Parsed (Arr (acc @ [?v])) rest"
      using first [of "CHR '']'' # rest"] by (rule pe_last)
    finally show ?thesis using True by simp
  next
    case False
    with lt have len: "length (commas (SerializeJSONArray xs)) < m" by simp
    have "parse_elements n acc (commas (SerializeJSONArray (x # xs)) @ CHR '']'' # rest)
        = parse_elements (Suc m) acc (?e @ CHR '','' # commas (SerializeJSONArray xs) @ CHR '']'' # rest)"
      unfolding shape n using False by simp
    also have "\<dots> = parse_elements m (acc @ [?v]) (commas (SerializeJSONArray xs) @ CHR '']'' # rest)"
      using first [of "CHR '','' # commas (SerializeJSONArray xs) @ CHR '']'' # rest"] by (rule pe_more)
    also have "\<dots> = Parsed (Arr ((acc @ [?v]) @ reread_elements xs)) rest"
      using False len by (rule 10(2))
    finally show ?thesis by simp
  qed
qed

lemma round_trip_members:
  "SerializeJSONObject kvs \<noteq> [] \<Longrightarrow> length (commas (SerializeJSONObject kvs)) < n \<Longrightarrow>
     parse_members n acc (commas (SerializeJSONObject kvs) @ CHR ''}'' # rest)
       = Parsed (reread_members acc kvs) rest"
proof (induction kvs arbitrary: n acc)
  case Nil
  then show ?case by simp
next
  case (Cons p kvs)
  obtain k v where p: "p = (k, v)" by (cases p)
  show ?case
  proof (cases "SerializeJSONProperty v")
    case None
    from Cons.prems p None have "SerializeJSONObject kvs \<noteq> []"
      and "length (commas (SerializeJSONObject kvs)) < n"
      by simp_all
    from Cons.IH [OF this, of acc] None p show ?thesis by simp
  next
    case (Some t)
    let ?tail = "if SerializeJSONObject kvs = [] then [] else CHR '','' # commas (SerializeJSONObject kvs)"
    have shape: "commas (SerializeJSONObject (p # kvs)) = (QuoteJSONString k @ CHR '':'' # t) @ ?tail"
      using Some p by (simp add: commas_Cons)
    from Cons.prems(2) obtain m where n: "n = Suc m" and le: "length t \<le> m"
      and lt: "SerializeJSONObject kvs \<noteq> [] \<longrightarrow> length (commas (SerializeJSONObject kvs)) < m"
      unfolding shape by (cases n) (auto split: if_splits)
    have first: "parse_value m (t @ rest') = Parsed (reread v) rest'" for rest'
      using Some le by (rule round_trip_value)
    show ?thesis
    proof (cases "SerializeJSONObject kvs = []")
      case True
      have "parse_members n acc (commas (SerializeJSONObject (p # kvs)) @ CHR ''}'' # rest)
          = parse_members (Suc m) acc (QuoteJSONString k @ CHR '':'' # t @ CHR ''}'' # rest)"
        unfolding shape n using True by simp
      also have "\<dots> = Parsed (AList.update k (reread v) acc) rest"
        using first [of "CHR ''}'' # rest"] by (rule pm_last)
      finally show ?thesis using True Some p by (simp add: members_none)
    next
      case False
      with lt have len: "length (commas (SerializeJSONObject kvs)) < m" by simp
      have "parse_members n acc (commas (SerializeJSONObject (p # kvs)) @ CHR ''}'' # rest)
          = parse_members (Suc m) acc (QuoteJSONString k @ CHR '':'' # t @ CHR '','' #
               commas (SerializeJSONObject kvs) @ CHR ''}'' # rest)"
        unfolding shape n using False by simp
      also have "\<dots> = parse_members m (AList.update k (reread v) acc)
               (commas (SerializeJSONObject kvs) @ CHR ''}'' # rest)"
        using first [of "CHR '','' # commas (SerializeJSONObject kvs) @ CHR ''}'' # rest"]
        by (rule pm_more)
      also have "\<dots> = Parsed (reread_members (AList.update k (reread v) acc) kvs) rest"
        using False len by (rule Cons.IH)
      finally show ?thesis using Some p by simp
    qed
  qed
qed

lemma pd_record_empty: "parse_document n ''{}'' = Parsed (Record []) []"
  by (simp add: parse_document_def skip_ws_def json_ws_def)

lemma pd_record:
  "parse_members n [] (CHR 0x22 # r) = Parsed kvs rest \<Longrightarrow>
   parse_document n (CHR ''{'' # CHR 0x22 # r) = Parsed (Record kvs) rest"
  by (simp add: parse_document_def skip_ws_def json_ws_def)

lemma pd_value:
  "\<not> json_ws c \<Longrightarrow> c \<noteq> CHR ''{'' \<Longrightarrow> parse_value n (c # r) = Parsed v rest \<Longrightarrow>
   parse_document n (c # r) = Parsed (Value v) rest"
  by (simp add: parse_document_def skip_ws_def)

lemma serialize_braces:
  "SerializeJSONProperty v = Some t \<Longrightarrow>
     (reread v = EmptyObj \<and> t = ''{}'') \<or>
     (reread v \<noteq> EmptyObj \<and> (\<exists>c r. t = c # r \<and> \<not> json_ws c \<and> c \<noteq> CHR ''{''))"
  by (cases v) (auto simp: QuoteJSONString_def json_ws_def)

text \<open>\<^verbatim>\<open>JSON.parse(JSON.stringify(d))\<close> is \<open>reread_document d\<close>, for every document that
  has a text.\<close>

theorem JSON_parse_stringify:
  assumes "JSON_stringify d = Some t"
  shows "JSON_parse t = Inr (reread_document d)"
proof (cases d)
  case (Record kvs)
  with assms have t: "t = CHR ''{'' # commas (SerializeJSONObject kvs) @ ''}''"
    by (simp add: JSON_stringify_def)
  show ?thesis
  proof (cases "SerializeJSONObject kvs = []")
    case True
    with t have "t = ''{}''" by simp
    with True Record show ?thesis
      by (simp add: JSON_parse_def pd_record_empty skip_ws_def reread_document_def members_none)
  next
    case False
    from object_first [OF False] obtain r where
      d: "commas (SerializeJSONObject kvs) = CHR 0x22 # r"
      by blast
    from t have "length (commas (SerializeJSONObject kvs)) < 2 * length t + 1"
      by simp
    with False have "parse_members (2 * length t + 1) [] (commas (SerializeJSONObject kvs) @ CHR ''}'' # [])
        = Parsed (reread_members [] kvs) []"
      by (rule round_trip_members)
    then have "parse_members (2 * length t + 1) [] (CHR 0x22 # r @ ''}'')
        = Parsed (reread_members [] kvs) []"
      unfolding d by simp
    then have "parse_document (2 * length t + 1) (CHR ''{'' # CHR 0x22 # r @ ''}'')
        = Parsed (Record (reread_members [] kvs)) []"
      by (rule pd_record)
    moreover have "t = CHR ''{'' # CHR 0x22 # r @ ''}''"
      unfolding t d by simp
    ultimately have "parse_document (2 * length t + 1) t = Parsed (Record (reread_members [] kvs)) []"
      by simp
    with Record show ?thesis
      by (simp add: JSON_parse_def skip_ws_def reread_document_def)
  qed
next
  case (Value v)
  with assms have s: "SerializeJSONProperty v = Some t"
    by (simp add: JSON_stringify_def)
  then have pv: "parse_value (2 * length t + 1) (t @ []) = Parsed (reread v) []"
    by (rule round_trip_value) simp
  from serialize_braces [OF s] show ?thesis
  proof
    assume "reread v = EmptyObj \<and> t = ''{}''"
    with Value show ?thesis
      by (simp add: JSON_parse_def pd_record_empty skip_ws_def reread_document_def)
  next
    assume a: "reread v \<noteq> EmptyObj \<and> (\<exists>c r. t = c # r \<and> \<not> json_ws c \<and> c \<noteq> CHR ''{'')"
    then obtain c r where c: "t = c # r" "\<not> json_ws c" "c \<noteq> CHR ''{''"
      by blast
    from pv have "parse_value (2 * length t + 1) (c # r) = Parsed (reread v) []"
      unfolding c(1) by simp
    with c(2,3) have "parse_document (2 * length t + 1) (c # r) = Parsed (Value (reread v)) []"
      by (rule pd_value)
    then have "parse_document (2 * length t + 1) t = Parsed (Value (reread v)) []"
      unfolding c(1) .
    with a Value show ?thesis
      by (simp add: JSON_parse_def skip_ws_def reread_document_def)
  qed
qed

section \<open>The draft survives the storage\<close>

lemma reread_elements_plain:
  "\<forall>x\<in>set xs. plain x \<longrightarrow> reread x = x \<Longrightarrow> list_all plain xs \<Longrightarrow> reread_elements xs = xs"
  by (induction xs) (auto simp: serialize_None)

lemma plain_reread: "plain v \<Longrightarrow> reread v = v"
  by (induction v) (simp_all add: reread_elements_plain)

lemma supported_text: "supported v \<Longrightarrow> SerializeJSONProperty v = None \<longleftrightarrow> v = Undefined"
  by (cases v) (simp_all add: supported_def)

lemma update_fresh: "k \<notin> fst ` set al \<Longrightarrow> AList.update k v al = al @ [(k, v)]"
  by (induction al) auto

lemma reread_members_supported:
  "distinct (map fst kvs) \<Longrightarrow> fst ` set acc \<inter> fst ` set kvs = {} \<Longrightarrow>
   \<forall>v\<in>snd ` set kvs. supported v \<Longrightarrow>
   reread_members acc kvs = acc @ filter (\<lambda>p. snd p \<noteq> Undefined) kvs"
proof (induction kvs arbitrary: acc)
  case Nil
  then show ?case by simp
next
  case (Cons p kvs)
  obtain k v where p: "p = (k, v)" by (cases p)
  from Cons.prems p have d: "distinct (map fst kvs)" and fresh: "k \<notin> fst ` set acc"
    and k: "k \<notin> fst ` set kvs" and rest: "fst ` set acc \<inter> fst ` set kvs = {}"
    and sv: "supported v" and s: "\<forall>v\<in>snd ` set kvs. supported v"
    by auto
  show ?case
  proof (cases "v = Undefined")
    case True
    with Cons.IH [OF d rest s] p show ?thesis by simp
  next
    case False
    with sv have "reread v = v" by (simp add: supported_def plain_reread)
    moreover from False sv obtain t where "SerializeJSONProperty v = Some t"
      by (cases "SerializeJSONProperty v") (auto simp: supported_text)
    moreover have "fst ` set (AList.update k v acc) \<inter> fst ` set kvs = {}"
      using rest k by (auto simp: dom_update)
    ultimately show ?thesis
      using Cons.IH [OF d _ s, of "AList.update k v acc"] p False fresh
      by (simp add: update_fresh)
  qed
qed

text \<open>Leaving out the entries that hold \<^verbatim>\<open>undefined\<close> changes no lookup, except at a key
  that names an inherited property: there the entry hid the inherited value.\<close>

lemma map_of_defined:
  "distinct (map fst kvs) \<Longrightarrow>
   map_of (filter (\<lambda>p. snd p \<noteq> Undefined) kvs) k
     = (if map_of kvs k = Some Undefined then None else map_of kvs k)"
proof (induction kvs)
  case Nil
  then show ?case by simp
next
  case (Cons p kvs)
  obtain k' v where p: "p = (k', v)" by (cases p)
  from Cons.prems p have "k' \<notin> fst ` set kvs" by auto
  then have "map_of kvs k' = None"
    by (simp add: map_of_eq_None_iff)
  with Cons p show ?case
    by auto
qed

lemma get_prop_defined:
  "distinct (map fst kvs) \<Longrightarrow> inherited k = None \<or> map_of kvs k \<noteq> Some Undefined \<Longrightarrow>
   get_prop (filter (\<lambda>p. snd p \<noteq> Undefined) kvs) k = get_prop kvs k"
  by (auto simp: get_prop_def map_of_defined)

text \<open>Edits keep the keys of the answers distinct, as the keys of an object are.\<close>

lemma handleChange_distinct:
  "distinct (map fst (formData w)) \<Longrightarrow> distinct (map fst (formData (handleChange ident v w)))"
  by (simp add: handleChange_def persist_formData_def Let_def distinct_update)

text \<open>
  Claim C9, as amended. Let the answers be a record (distinct keys) whose values are strings,
  sequences of strings, or \<^verbatim>\<open>undefined\<close> for an absent entry. Then the text the component
  stores for them parses to a record, which is the original without the entries that hold
  \<^verbatim>\<open>undefined\<close>, so the keys with a present value are the same. The record read back
  answers \<^verbatim>\<open>get\<close> as the original does at every key, except at the name of an inherited
  property (\<^verbatim>\<open>constructor\<close>, \<^verbatim>\<open>toString\<close>, ...) for which the original holds
  \<^verbatim>\<open>undefined\<close>: there the original answers \<^verbatim>\<open>undefined\<close> and the record read back
  answers the inherited value. Writing through the component's effect and loading as its
  first effect does gives that record.
\<close>

theorem draft_round_trip:
  assumes "distinct (map fst answers)" and "\<forall>v\<in>snd ` set answers. supported v"
  shows "\<exists>saved restored.
      JSON_stringify (Record answers) = Some saved
      \<and> JSON_parse saved = Inr (Record restored)
      \<and> (\<forall>k. inherited k = None \<or> map_of answers k \<noteq> Some Undefined \<longrightarrow>
             get_prop restored k = get_prop answers k)
      \<and> (\<forall>k v. inherited k = Some v \<and> map_of answers k = Some Undefined \<longrightarrow>
             get_prop answers k = Undefined \<and> get_prop restored k = v)
      \<and> restored = filter (\<lambda>p. snd p \<noteq> Undefined) answers
      \<and> load_formData (localStorage (persist_formData (w\<lparr>formData := answers\<rparr>)))
          = Inr (Some (Record restored))"
proof -
  let ?saved = "''{'' @ commas (SerializeJSONObject answers) @ ''}''"
  let ?restored = "filter (\<lambda>p. snd p \<noteq> Undefined) answers"
  have s: "JSON_stringify (Record answers) = Some ?saved"
    by (simp add: JSON_stringify_def)
  have r: "reread_document (Record answers) = Record ?restored"
    using reread_members_supported [OF assms(1) _ assms(2), of "[]"]
    by (simp add: reread_document_def)
  from JSON_parse_stringify [OF s] r have p: "JSON_parse ?saved = Inr (Record ?restored)"
    by simp
  have g: "\<forall>k. inherited k = None \<or> map_of answers k \<noteq> Some Undefined \<longrightarrow>
             get_prop ?restored k = get_prop answers k"
    using get_prop_defined [OF assms(1)] by blast
  have h: "\<forall>k v. inherited k = Some v \<and> map_of answers k = Some Undefined \<longrightarrow>
             get_prop answers k = Undefined \<and> get_prop ?restored k = v"
    by (simp add: get_prop_def map_of_defined [OF assms(1)])
  let ?store = "localStorage (persist_formData (w\<lparr>formData := answers\<rparr>))"
  have "getItem ?store STORAGE_KEY = Some ?saved"
    by (simp add: persist_formData_def getItem_def setItem_def update_conv' JSON_stringify_def)
  then have l: "load_formData ?store = Inr (Some (Record ?restored))"
    using p by (simp add: load_formData_def truthy_def Let_def)
  from s p g h l show ?thesis by blast
qed

text \<open>A string, two absent entries, one of them under an inherited name, and a sequence of
  strings.\<close>

theorem draft_round_trip_witness:
  "distinct (map fst [(''hours'', Str ''6+''), (''scan'', Undefined), (''tags'', Arr [Str ''a'', Str ''b'']),
      (''valueOf'', Undefined)])
   \<and> supported (Str ''6+'') \<and> supported Undefined \<and> supported (Arr [Str ''a'', Str ''b''])
   \<and> inherited ''scan'' = None
   \<and> inherited ''valueOf'' = Some (Native ''valueOf'')
   \<and> (\<exists>saved restored.
        JSON_stringify (Record [(''hours'', Str ''6+''), (''scan'', Undefined),
            (''tags'', Arr [Str ''a'', Str ''b'']), (''valueOf'', Undefined)])
          = Some saved
        \<and> JSON_parse saved = Inr (Record restored)
        \<and> restored = [(''hours'', Str ''6+''), (''tags'', Arr [Str ''a'', Str ''b''])]
        \<and> get_prop restored ''scan''
            = get_prop [(''hours'', Str ''6+''), (''scan'', Undefined),
                (''tags'', Arr [Str ''a'', Str ''b'']), (''valueOf'', Undefined)] ''scan''
        \<and> get_prop restored ''hours''
            = get_prop [(''hours'', Str ''6+''), (''scan'', Undefined),
                (''tags'', Arr [Str ''a'', Str ''b'']), (''valueOf'', Undefined)] ''hours''
        \<and> get_prop restored ''valueOf'' = Native ''valueOf'')"
proof -
  let ?answers = "[(''hours'', Str ''6+''), (''scan'', Undefined), (''tags'', Arr [Str ''a'', Str ''b'']),
      (''valueOf'', Undefined)]"
  have d: "distinct (map fst ?answers)" by simp
  have s: "supported (Str ''6+'') \<and> supported Undefined \<and> supported (Arr [Str ''a'', Str ''b''])"
    by (simp add: supported_def)
  then have all: "\<forall>v\<in>snd ` set ?answers. supported v" by simp
  have i: "inherited ''scan'' = None"
    by (simp add: inherited_def)
  have j: "inherited ''valueOf'' = Some (Native ''valueOf'')"
    by (simp add: inherited_def)
  have h: "map_of ?answers ''hours'' \<noteq> Some Undefined"
    by simp
  have u: "map_of ?answers ''valueOf'' = Some Undefined"
    by simp
  from draft_round_trip [OF d all] obtain saved restored where
    "JSON_stringify (Record ?answers) = Some saved" "JSON_parse saved = Inr (Record restored)"
    "\<forall>k. inherited k = None \<or> map_of ?answers k \<noteq> Some Undefined \<longrightarrow>
       get_prop restored k = get_prop ?answers k"
    "\<forall>k v. inherited k = Some v \<and> map_of ?answers k = Some Undefined \<longrightarrow>
       get_prop ?answers k = Undefined \<and> get_prop restored k = v"
    "restored = filter (\<lambda>p. snd p \<noteq> Undefined) ?answers"
    by blast
  with i j h u have "JSON_stringify (Record ?answers) = Some saved \<and> JSON_parse saved = Inr (Record restored)
      \<and> restored = [(''hours'', Str ''6+''), (''tags'', Arr [Str ''a'', Str ''b''])]
      \<and> get_prop restored ''scan'' = get_prop ?answers ''scan''
      \<and> get_prop restored ''hours'' = get_prop ?answers ''hours''
      \<and> get_prop restored ''valueOf'' = Native ''valueOf''"
    by simp
  then have "\<exists>saved restored. JSON_stringify (Record ?answers) = Some saved
      \<and> JSON_parse saved = Inr (Record restored)
      \<and> restored = [(''hours'', Str ''6+''), (''tags'', Arr [Str ''a'', Str ''b''])]
      \<and> get_prop restored ''scan'' = get_prop ?answers ''scan''
      \<and> get_prop restored ''hours'' = get_prop ?answers ''hours''
      \<and> get_prop restored ''valueOf'' = Native ''valueOf''"
    by blast
  with d s i j show ?thesis by (intro conjI) simp_all
qed

text \<open>The first reading of claim C9 fails at an absent entry under the name of an inherited
  property: the answers hold \<^verbatim>\<open>undefined\<close> for \<^verbatim>\<open>constructor\<close> (a file question of
  that id with no file chosen), the stored text is the empty object, and the record read back
  answers \<^verbatim>\<open>constructor\<close> with the function \<^verbatim>\<open>Object\<close>.\<close>

theorem draft_inherited_key:
  "distinct (map fst [(''constructor'', Undefined)])
   \<and> supported Undefined
   \<and> JSON_stringify (Record [(''constructor'', Undefined)]) = Some ''{}''
   \<and> JSON_parse ''{}'' = Inr (Record [])
   \<and> get_prop [(''constructor'', Undefined)] ''constructor'' = Undefined
   \<and> get_prop [] ''constructor'' = Native ''Object''"
  by code_simp

text \<open>What the claim exempts does change: a file handle comes back as an empty object, and
  an \<^verbatim>\<open>undefined\<close> inside a sequence as \<^verbatim>\<open>null\<close>.\<close>

lemma file_handle_not_restored:
  \<open>JSON_stringify (Record [(''scan'', File 7)]) = Some ''{"scan":{}}''
   \<and> JSON_parse ''{"scan":{}}'' = Inr (Record [(''scan'', EmptyObj)])\<close>
  by code_simp

lemma undefined_element_not_restored:
  \<open>JSON_stringify (Record [(''tags'', Arr [Undefined])]) = Some ''{"tags":[null]}''
   \<and> JSON_parse ''{"tags":[null]}'' = Inr (Record [(''tags'', Arr [Null])])\<close>
  by code_simp

section \<open>The older copy in App.tsx\<close>

text \<open>On answers that are trimmed strings or absent, with every controller answered by a
  string, the older copy decides visibility and required-field errors as the component does.
  It differs on other values, and its Next button needs every question of the step
  answered, hidden and optional ones included.\<close>

lemma isVisible_App_on_strings:
  "\<forall>c. conditional q = Some c \<longrightarrow> (\<exists>s. get_prop answers (cfield c) = Str s) \<Longrightarrow>
   isVisible_App q answers = isVisible q answers"
  by (auto simp: isVisible_App_def isVisible_def includes_value_def split: option.splits)

lemma isVisible_App_differs:
  "isVisible \<lparr>qid = ''packs'', required = None,
      conditional = Some \<lparr>cfield = ''smoker'', cvalue = [''true'']\<rparr>\<rparr> [(''smoker'', Bool True)]
   \<and> \<not> isVisible_App \<lparr>qid = ''packs'', required = None,
      conditional = Some \<lparr>cfield = ''smoker'', cvalue = [''true'']\<rparr>\<rparr> [(''smoker'', Bool True)]"
  by code_simp

lemma newErrors_App_on_trimmed:
  assumes "\<forall>q\<in>set qs. (\<exists>s. get_prop answers (qid q) = Str s \<and> trim s = s) \<or> get_prop answers (qid q) = Undefined"
    and "\<forall>q\<in>set qs. \<forall>c. conditional q = Some c \<longrightarrow> (\<exists>s. get_prop answers (cfield c) = Str s)"
  shows "newErrors_App qs answers = newErrors qs answers"
proof -
  have "check_question_App answers acc q = check_question answers acc q" if "q \<in> set qs" for acc q
  proof -
    from that assms(2) have v: "isVisible_App q answers = isVisible q answers"
      by (intro isVisible_App_on_strings) auto
    from that assms(1) have "falsy (get_prop answers (qid q)) = isEmptyValue (get_prop answers (qid q))"
      by auto
    with v show ?thesis by (simp add: check_question_App_def check_question_def)
  qed
  then have "foldl (check_question_App answers) acc qs = foldl (check_question answers) acc qs" for acc
    by (induction qs arbitrary: acc rule: rev_induct) auto
  then show ?thesis by (simp add: newErrors_App_def newErrors_def)
qed

lemma isNextEnabled_App_differs:
  "isNextEnabled step_one [(''hours'', Str ''0-2'')]
   \<and> \<not> isNextEnabled_App step_one [(''hours'', Str ''0-2'')]"
  by code_simp

end
